theory Spec2Isabelle
  imports Complex_Main "HOL-Library.Log_Nat"
begin

unbundle bit_operations_syntax

section \<open>Data model of \<^verbatim>\<open>src/main.py\<close>\<close>

text \<open>
  The program is the class \<^verbatim>\<open>VisionSystem\<close> and the function \<^verbatim>\<open>main\<close>. Its
  collaborators (OpenCV, the YOLO tracker, the clock, the file system, the logger) are not
  part of the repository: what they return is an input of the model, and every call the
  program makes to them is appended to a trace, oldest call first.

  Messages. A log or print event carries the fixed part of the message, written without
  accents and without the values formatted into it.

  Numbers. Python's \<^verbatim>\<open>int\<close> is \<open>int\<close>. A float is modelled by the real number it
  denotes, and every floating-point operation of the rescaling by the exact operation
  followed by rounding to the nearest float of its format, ties to even (binary64 for
  Python's \<^verbatim>\<open>float\<close>, binary32 for the entries of the detector's tensors).
  Overflow to infinity is not modelled: it takes coordinates or frame sizes beyond
  \<open>10^38\<close>.
\<close>

type_synonym color = "nat \<times> nat \<times> nat"

type_synonym box = "real \<times> real \<times> real \<times> real"

text \<open>What \<^verbatim>\<open>cv2.rectangle\<close> and \<^verbatim>\<open>cv2.putText\<close> were asked to draw.\<close>

datatype drawing =
    Rectangle "int \<times> int" "int \<times> int" color nat
  | PutText string "int \<times> int" color nat

text \<open>
  An image is the raw camera frame (of which only the shape matters) together with
  the drawings made on it so far, oldest first.
\<close>

record image =
  shape_h :: nat
  shape_w :: nat
  drawn :: "drawing list"

record datetime =
  dt_day :: nat
  dt_month :: nat
  dt_year :: nat
  dt_hour :: nat
  dt_minute :: nat
  dt_second :: nat
  dt_microsecond :: nat

datatype level = Info | Warning | Error

datatype event =
    Log level string
  | VideoCapture int
  | CameraSet
  | NamedWindow
  | CameraRead
  | ModelTrack
  | Snapshot int string
  | Makedirs string
  | Imwrite string
  | Imshow
  | WaitKey
  | CameraRelease
  | DestroyAllWindows
  | ProcessFrame
  | Print string
  | Cleanup

text \<open>
  \<open>Snapshot t label\<close> marks the call \<^verbatim>\<open>self.save_stone_image(frame_com_desenhos)\<close> of
  line 104, made while the instance with track id \<open>t\<close> and class \<open>label\<close> is handled;
  \<open>ProcessFrame\<close> marks the call of \<^verbatim>\<open>process_frame\<close> in \<^verbatim>\<open>main\<close>, and
  \<open>Cleanup\<close> the call of \<^verbatim>\<open>cleanup\<close> in \<^verbatim>\<open>__exit__\<close>.
\<close>

datatype imwrite_result = WriteOk | WriteFalse | WriteRaises

text \<open>
  What the environment answers during one call of \<^verbatim>\<open>save_stone_image\<close>: whether
  \<^verbatim>\<open>os.makedirs\<close> raises, the two readings of \<^verbatim>\<open>datetime.now()\<close> on line 58, and
  what \<^verbatim>\<open>cv2.imwrite\<close> does.
\<close>

record save_env =
  makedirs_raises :: bool
  now1 :: datetime
  now2 :: datetime
  imwrite :: imwrite_result

text \<open>
  The fields of \<^verbatim>\<open>VisionSystem\<close> that the program reads or writes after construction,
  followed by the part of the outside world it acts on: \<open>camera = None\<close> is
  \<^verbatim>\<open>self.camera is None\<close>, \<open>camera = Some b\<close> is a capture object whose
  \<^verbatim>\<open>isOpened()\<close> answers \<open>b\<close>; \<open>dir_exists\<close> is \<^verbatim>\<open>os.path.exists(self.save_path)\<close>;
  \<open>files\<close> are the files written by \<^verbatim>\<open>cv2.imwrite\<close>.
\<close>

record vision_system =
  camera_index :: int
  save_path :: string
  colors :: "string \<rightharpoonup> color"
  names :: "int \<rightharpoonup> string"
  camera :: "bool option"
  saved_stone_ids :: "int set"
  dir_exists :: bool
  files :: "string \<rightharpoonup> image"
  trace :: "event list"

definition emit :: "event \<Rightarrow> vision_system \<Rightarrow> vision_system" where
  "emit e s = s\<lparr>trace := trace s @ [e]\<rparr>"

section \<open>Formatting\<close>

definition digit_char :: "nat \<Rightarrow> char" where
  "digit_char d = ''0123456789'' ! d"

fun dec :: "nat \<Rightarrow> string" where
  "dec n = (if n < 10 then [digit_char n] else dec (n div 10) @ [digit_char (n mod 10)])"

declare dec.simps [simp del]

text \<open>Zero padding to a minimum width, as \<^verbatim>\<open>%d\<close>, \<^verbatim>\<open>%H\<close>, ... and \<^verbatim>\<open>:03d\<close> do.\<close>

definition zpad :: "nat \<Rightarrow> nat \<Rightarrow> string" where
  "zpad w n = replicate (w - length (dec n)) (CHR ''0'') @ dec n"

text \<open>\<^verbatim>\<open>strftime("%d-%m-%Y %H-%M-%S-")\<close>\<close>

definition strftime :: "datetime \<Rightarrow> string" where
  "strftime d =
     zpad 2 (dt_day d) @ ''-'' @ zpad 2 (dt_month d) @ ''-'' @ zpad 4 (dt_year d) @ '' '' @
     zpad 2 (dt_hour d) @ ''-'' @ zpad 2 (dt_minute d) @ ''-'' @ zpad 2 (dt_second d) @ ''-''"

text \<open>
  Line 58: the date and time come from a first reading of the clock, the milliseconds
  from a second one.
\<close>

definition timestamp :: "datetime \<Rightarrow> datetime \<Rightarrow> string" where
  "timestamp d1 d2 = strftime d1 @ zpad 3 (dt_microsecond d2 div 1000)"

text \<open>
  Line 59: \<^verbatim>\<open>os.path.join(self.save_path, f'{timestamp}.jpg')\<close>. A separator is
  inserted unless the directory is empty or already ends with one.
\<close>

definition path_join :: "string \<Rightarrow> string \<Rightarrow> string" where
  "path_join a b =
     (if a = [] \<or> last a = CHR ''/'' then a @ b else a @ ''/'' @ b)"

definition snapshot_filename :: "string \<Rightarrow> datetime \<Rightarrow> datetime \<Rightarrow> string" where
  "snapshot_filename dir d1 d2 = path_join dir (timestamp d1 d2 @ ''.jpg'')"

text \<open>
  \<^verbatim>\<open>f'{score:.2f}'\<close>: the value is rounded to two decimals, a tie going to the even
  neighbour, and printed with at least one digit before the point.
\<close>

definition round_half_even :: "real \<Rightarrow> int" where
  "round_half_even x =
     (let f = \<lfloor>x\<rfloor>; r = x - of_int f in
      if r < 1 / 2 then f else if 1 / 2 < r then f + 1
      else if even f then f else f + 1)"

definition format_2f :: "real \<Rightarrow> string" where
  "format_2f x =
     (let n = nat (round_half_even (\<bar>x\<bar> * 100)) in
      (if x < 0 then ''-'' else []) @ dec (n div 100) @ ''.'' @ zpad 2 (n mod 100))"

section \<open>Floating-point rounding\<close>

definition pow2 :: "int \<Rightarrow> real" where
  "pow2 e = (if 0 \<le> e then 2 ^ nat e else 1 / 2 ^ nat (- e))"

text \<open>The exponent \<open>e\<close> with \<open>2^e \<le> \<bar>x\<bar> < 2^(e + 1)\<close>, for \<open>x\<close> other than 0.\<close>

definition binade :: "real \<Rightarrow> int" where
  "binade x =
     (if 1 \<le> \<bar>x\<bar> then bitlen \<lfloor>\<bar>x\<bar>\<rfloor> - 1 else - bitlen (\<lceil>1 / \<bar>x\<bar>\<rceil> - 1))"

text \<open>
  Rounding to the nearest float with \<open>p\<close> significant bits and least exponent \<open>emin\<close>
  (below which the spacing of the floats no longer shrinks), ties to even.
\<close>

definition round_float :: "nat \<Rightarrow> int \<Rightarrow> real \<Rightarrow> real" where
  "round_float p emin x =
     (if x = 0 then 0
      else let u = pow2 (max (binade x) emin - int p + 1)
           in of_int (round_half_even (x / u)) * u)"

definition float32 :: "real \<Rightarrow> real" where
  "float32 = round_float 24 (- 126)"

definition float64 :: "real \<Rightarrow> real" where
  "float64 = round_float 53 (- 1022)"

section \<open>Coordinate rescaling (lines 82, 83 and 94)\<close>

text \<open>Python's \<^verbatim>\<open>int(x)\<close> on a float: truncation towards zero.\<close>

definition py_int :: "real \<Rightarrow> int" where
  "py_int x = (if x < 0 then \<lceil>x\<rceil> else \<lfloor>x\<rfloor>)"

text \<open>
  \<^verbatim>\<open>box[i] * scale\<close>: an entry of a binary32 tensor times a Python float. The
  scalar is converted to binary32 and the product is a binary32 tensor.
\<close>

definition tensor_mul :: "real \<Rightarrow> real \<Rightarrow> real" where
  "tensor_mul a k = float32 (a * float32 k)"

text \<open>
  Lines 82 and 83 divide two Python integers, which gives the binary64 float nearest to
  the quotient; \<open>b\<close> holds the four binary32 entries of \<^verbatim>\<open>box\<close>.
\<close>

definition rescale :: "nat \<Rightarrow> nat \<Rightarrow> box \<Rightarrow> (int \<times> int) \<times> (int \<times> int)" where
  "rescale original_w original_h b =
     (case b of (b0, b1, b2, b3) \<Rightarrow>
        let scale_x = float64 (of_nat original_w / 640);
            scale_y = float64 (of_nat original_h / 640)
        in ((py_int (tensor_mul b0 scale_x), py_int (tensor_mul b1 scale_y)),
            (py_int (tensor_mul b2 scale_x), py_int (tensor_mul b3 scale_y))))"

section \<open>The snapshot sink: \<^verbatim>\<open>save_stone_image\<close> (lines 50 to 66)\<close>

text \<open>
  Every exception raised inside is caught on line 65 and logged; the function returns
  \<^verbatim>\<open>None\<close> on every path, and the value returned by \<^verbatim>\<open>cv2.imwrite\<close> is dropped.
\<close>

definition save_stone_image :: "save_env \<Rightarrow> image \<Rightarrow> vision_system \<Rightarrow> vision_system" where
  "save_stone_image env frame s =
     (if \<not> dir_exists s \<and> makedirs_raises env then
        emit (Log Error ''Falha ao salvar a imagem da pedra'') (emit (Makedirs (save_path s)) s)
      else
        let s1 = (if \<not> dir_exists s
                  then emit (Log Info ''Diretorio criado'')
                         ((emit (Makedirs (save_path s)) s)\<lparr>dir_exists := True\<rparr>)
                  else s);
            filename = snapshot_filename (save_path s) (now1 env) (now2 env);
            s2 = emit (Imwrite filename) s1
        in case imwrite env of
             WriteRaises \<Rightarrow> emit (Log Error ''Falha ao salvar a imagem da pedra'') s2
           | WriteFalse \<Rightarrow> emit (Log Info ''Print da tela salvo'') s2
           | WriteOk \<Rightarrow>
               emit (Log Info ''Print da tela salvo'')
                 (s2\<lparr>files := (files s2)(filename \<mapsto> frame)\<rparr>))"

section \<open>The frame loop: \<^verbatim>\<open>process_frame\<close> (lines 68 to 113)\<close>

text \<open>What \<^verbatim>\<open>results[0].boxes\<close> holds: \<open>ids = None\<close> is \<^verbatim>\<open>boxes.id is None\<close>.\<close>

record results =
  xyxy :: "box list"
  cls :: "int list"
  conf :: "real list"
  ids :: "int list option"

datatype read_result = ReadRaises | ReadFails | ReadOk nat nat

datatype track_result = TrackRaises | TrackReturns results

text \<open>
  What the environment answers during one pass through the body of \<^verbatim>\<open>while True\<close>:
  \<open>ReadOk h w\<close> is a frame of height \<open>h\<close> and width \<open>w\<close>; \<open>senv i\<close> is the environment
  of the sink, should it be called for the \<open>i\<close>-th instance of the frame; \<open>key\<close> is what
  \<^verbatim>\<open>cv2.waitKey(1)\<close> returns if it is called.
\<close>

record tick =
  read :: read_result
  track :: track_result
  senv :: "nat \<Rightarrow> save_env"
  imshow_raises :: bool
  key :: int

text \<open>The test on the class label of line 103.\<close>

definition flagged :: "string \<Rightarrow> bool" where
  "flagged label \<longleftrightarrow>
     label = ''PEDRA'' \<or> label = ''PEDRA-NA-BATATA'' \<or> label = ''BATATA-COM-PEDRA''"

text \<open>\<^verbatim>\<open>zip(boxes, classes, scores, track_ids)\<close> stops with the shortest argument.\<close>

definition zip4 :: "'a list \<Rightarrow> 'b list \<Rightarrow> 'c list \<Rightarrow> 'd list \<Rightarrow> ('a \<times> 'b \<times> 'c \<times> 'd) list" where
  "zip4 as bs cs ds = zip as (zip bs (zip cs ds))"

text \<open>Lines 94 to 101: the two drawings made for one instance.\<close>

definition annotate :: "vision_system \<Rightarrow> nat \<Rightarrow> nat \<Rightarrow> box \<Rightarrow> string \<Rightarrow> real \<Rightarrow> drawing list" where
  "annotate s original_w original_h b label score =
     (case rescale original_w original_h b of ((x1, y1), (x2, y2)) \<Rightarrow>
        let color = (case colors s label of Some c \<Rightarrow> c | None \<Rightarrow> (0, 255, 0));
            display_text = label @ '': '' @ format_2f score
        in [Rectangle (x1, y1) (x2, y2) color 2,
            PutText display_text (x1, y1 - 10) color 2])"

text \<open>
  Lines 94 to 105, the body of the \<^verbatim>\<open>for\<close> loop. \<open>None\<close>: the lookup
  \<^verbatim>\<open>self.model.names[int(cls)]\<close> raised \<^verbatim>\<open>KeyError\<close>.
\<close>

definition handle_instance ::
  "nat \<Rightarrow> nat \<Rightarrow> save_env \<Rightarrow> box \<times> int \<times> real \<times> int \<Rightarrow> image \<Rightarrow> vision_system
     \<Rightarrow> (image \<times> vision_system) option" where
  "handle_instance original_w original_h env d img s =
     (case d of (b, c, score, track_id) \<Rightarrow>
        (case names s c of
           None \<Rightarrow> None
         | Some label \<Rightarrow>
             let img1 = img\<lparr>drawn := drawn img @ annotate s original_w original_h b label score\<rparr>
             in if flagged label \<and> track_id \<notin> saved_stone_ids s then
                  let s1 = save_stone_image env img1 (emit (Snapshot track_id label) s)
                  in Some (img1, s1\<lparr>saved_stone_ids := insert track_id (saved_stone_ids s1)\<rparr>)
                else Some (img1, s)))"

text \<open>
  The \<^verbatim>\<open>for\<close> loop of line 93; \<open>i\<close> counts the instances. The Boolean says whether
  an exception left the loop; what was done before it stays done.
\<close>

fun instances ::
  "nat \<Rightarrow> nat \<Rightarrow> (nat \<Rightarrow> save_env) \<Rightarrow> nat \<Rightarrow> (box \<times> int \<times> real \<times> int) list \<Rightarrow> image
     \<Rightarrow> vision_system \<Rightarrow> bool \<times> image \<times> vision_system" where
  "instances original_w original_h se i [] img s = (False, img, s)"
| "instances original_w original_h se i (d # ds) img s =
     (case handle_instance original_w original_h (se i) d img s of
        None \<Rightarrow> (True, img, s)
      | Some (img1, s1) \<Rightarrow> instances original_w original_h se (Suc i) ds img1 s1)"

text \<open>
  Lines 85 to 105: the copy of the frame and, when the tracker reports track ids, the
  loop over the instances.
\<close>

definition annotate_frame ::
  "tick \<Rightarrow> nat \<Rightarrow> nat \<Rightarrow> results \<Rightarrow> vision_system \<Rightarrow> bool \<times> image \<times> vision_system" where
  "annotate_frame tk original_w original_h r s =
     (let frame_com_desenhos = \<lparr>shape_h = original_h, shape_w = original_w, drawn = []\<rparr>
      in case ids r of
           None \<Rightarrow> (False, frame_com_desenhos, s)
         | Some track_ids \<Rightarrow>
             instances original_w original_h (senv tk) 0
               (zip4 (xyxy r) (cls r) (conf r) track_ids) frame_com_desenhos s)"

datatype flow = Continue | Break

text \<open>
  One pass through the body of \<^verbatim>\<open>while True\<close> (lines 71 to 113). Exceptions are
  modelled where the camera is read, where the tracker runs, where a class name is looked
  up and where the frame is shown: before, inside and after the loop over the instances.
  With \<^verbatim>\<open>self.camera\<close> being \<^verbatim>\<open>None\<close> the read raises. Every exception is caught
  on line 111 and logged, and \<^verbatim>\<open>continue\<close> starts the next pass.
\<close>

definition iteration :: "tick \<Rightarrow> vision_system \<Rightarrow> flow \<times> vision_system" where
  "iteration tk s =
     (if camera s = None then (Continue, emit (Log Error ''Erro ao processar o frame'') s)
      else case read tk of
        ReadRaises \<Rightarrow>
          (Continue, emit (Log Error ''Erro ao processar o frame'') (emit CameraRead s))
      | ReadFails \<Rightarrow>
          (Continue, emit (Log Warning ''Falha ao capturar frame da webcam'') (emit CameraRead s))
      | ReadOk original_h original_w \<Rightarrow>
          let s1 = emit ModelTrack (emit CameraRead s) in
          (case track tk of
             TrackRaises \<Rightarrow> (Continue, emit (Log Error ''Erro ao processar o frame'') s1)
           | TrackReturns r \<Rightarrow>
               (case annotate_frame tk original_w original_h r s1 of
                  (raised, img, s2) \<Rightarrow>
                    if raised then (Continue, emit (Log Error ''Erro ao processar o frame'') s2)
                    else if imshow_raises tk then
                      (Continue, emit (Log Error ''Erro ao processar o frame'') (emit Imshow s2))
                    else
                      let s3 = emit WaitKey (emit Imshow s2)
                      in if key tk AND 255 = 113 then (Break, s3) else (Continue, s3))))"

text \<open>
  The loop itself, run against the answers of the environment for the passes to come.
  \<open>(True, s)\<close>: the loop was left by \<^verbatim>\<open>break\<close> in state \<open>s\<close>; \<open>(False, s)\<close>: all the
  passes given were made and the loop is still running.
\<close>

fun process_frame :: "tick list \<Rightarrow> vision_system \<Rightarrow> bool \<times> vision_system" where
  "process_frame [] s = (False, s)"
| "process_frame (tk # tks) s =
     (case iteration tk s of
        (Break, s1) \<Rightarrow> (True, s1)
      | (Continue, s1) \<Rightarrow> process_frame tks s1)"

section \<open>Construction, \<^verbatim>\<open>init_camera\<close>, \<^verbatim>\<open>cleanup\<close> and \<^verbatim>\<open>main\<close>\<close>

definition colors_table :: "string \<rightharpoonup> color" where
  "colors_table =
     [''OK'' \<mapsto> (0, 255, 0),
      ''PODRE'' \<mapsto> (255, 0, 0),
      ''PEDRA'' \<mapsto> (0, 0, 255),
      ''PEDRA-NA-BATATA'' \<mapsto> (0, 0, 255),
      ''BATATA-COM-PEDRA'' \<mapsto> (0, 0, 255)]"

text \<open>
  \<^verbatim>\<open>__init__\<close> (lines 11 to 28). The class names of the model file and the state of
  the file system are not in the repository: they are parameters.
\<close>

definition VisionSystem ::
  "int \<Rightarrow> (int \<rightharpoonup> string) \<Rightarrow> bool \<Rightarrow> (string \<rightharpoonup> image) \<Rightarrow> vision_system" where
  "VisionSystem cam_index model_names dir fs =
     \<lparr>camera_index = cam_index, save_path = ''c:/potato-identifier/'',
      colors = colors_table, names = model_names, camera = None,
      saved_stone_ids = {}, dir_exists = dir, files = fs, trace = []\<rparr>"

datatype capture_result = CaptureRaises | CaptureReturns bool

text \<open>
  \<open>CaptureReturns b\<close>: \<^verbatim>\<open>cv2.VideoCapture\<close> returns an object whose \<^verbatim>\<open>isOpened()\<close>
  is \<open>b\<close>; \<open>setup_raises\<close>: one of the calls of lines 38 to 43 raises.
\<close>

record init_env =
  capture :: capture_result
  setup_raises :: bool

definition init_camera :: "init_env \<Rightarrow> vision_system \<Rightarrow> bool \<times> vision_system" where
  "init_camera env s =
     (let s0 = emit (VideoCapture (camera_index s)) s in
      case capture env of
        CaptureRaises \<Rightarrow>
          (False, emit (Log Error ''Nenhuma webcam encontrada'')
                    (emit (Log Error ''Erro ao inicializar webcam'') s0))
      | CaptureReturns opened \<Rightarrow>
          let s1 = s0\<lparr>camera := Some opened\<rparr> in
          if \<not> opened then (False, emit (Log Error ''Erro ao abrir webcam'') s1)
          else if setup_raises env then
            (False, emit (Log Error ''Nenhuma webcam encontrada'')
                      (emit (Log Error ''Erro ao inicializar webcam'') (emit CameraSet s1)))
          else
            (True, emit NamedWindow
                     (emit (Log Info ''Webcam encontrada e aberta com sucesso'')
                        (emit CameraSet s1))))"

record cleanup_env =
  release_raises :: bool
  destroy_raises :: bool

text \<open>
  \<^verbatim>\<open>cleanup\<close> (lines 115 to 123). The Boolean says whether an exception escaped
  \<^verbatim>\<open>cleanup\<close>: line 122 catches them all.
\<close>

definition cleanup :: "cleanup_env \<Rightarrow> vision_system \<Rightarrow> bool \<times> vision_system" where
  "cleanup env s =
     (if camera s = Some True \<and> release_raises env then
        (False, emit (Log Error ''Erro durante a limpeza'') (emit CameraRelease s))
      else
        let s1 = (if camera s = Some True
                  then (emit CameraRelease s)\<lparr>camera := Some False\<rparr> else s);
            s2 = emit DestroyAllWindows s1
        in if destroy_raises env then (False, emit (Log Error ''Erro durante a limpeza'') s2)
           else (False, emit (Log Info ''Recursos liberados com sucesso'') s2))"

record main_env =
  init :: init_env
  ticks :: "tick list"
  clean :: cleanup_env

text \<open>
  The \<^verbatim>\<open>with\<close> statement of \<^verbatim>\<open>main\<close> (lines 134 to 138), from the object that
  \<^verbatim>\<open>__init__\<close> built: \<^verbatim>\<open>__enter__\<close> drops the result of \<^verbatim>\<open>init_camera\<close>, and
  \<^verbatim>\<open>__exit__\<close> runs \<^verbatim>\<open>cleanup\<close> when the block is left. \<open>None\<close>: the frame loop is
  still running after the passes given.
\<close>

definition main :: "main_env \<Rightarrow> vision_system \<Rightarrow> vision_system option" where
  "main env s =
     (let s1 = snd (init_camera (init env) s) in
      if camera s1 = Some True then
        (case process_frame (ticks env) (emit ProcessFrame s1) of
           (True, s2) \<Rightarrow> Some (snd (cleanup (clean env) (emit Cleanup s2)))
         | (False, s2) \<Rightarrow> None)
      else
        Some (snd (cleanup (clean env)
                (emit Cleanup (emit (Print ''Saindo do programa pois a webcam nao pode ser inicializada'') s1)))))"

section \<open>The specification's rescaling\<close>



section \<open>Observations\<close>

text \<open>The calls of the snapshot sink recorded in a trace: track id and class label.\<close>

fun snapshots :: "event list \<Rightarrow> (int \<times> string) list" where
  "snapshots [] = []"
| "snapshots (Snapshot t l # es) = (t, l) # snapshots es"
| "snapshots (_ # es) = snapshots es"

definition sink_ids :: "vision_system \<Rightarrow> int list" where
  "sink_ids s = map fst (snapshots (trace s))"

text \<open>The track ids of the sink calls made between an earlier state and a later one.\<close>

definition new_sink_ids :: "vision_system \<Rightarrow> vision_system \<Rightarrow> int list" where
  "new_sink_ids s s' = drop (length (sink_ids s)) (sink_ids s')"

text \<open>
  The registry holds exactly the track ids for which the sink has been called, and the
  sink has been called once for each.
\<close>

definition registry_inv :: "vision_system \<Rightarrow> bool" where
  "registry_inv s \<longleftrightarrow> distinct (sink_ids s) \<and> set (sink_ids s) = saved_stone_ids s"

text \<open>The instances the \<^verbatim>\<open>for\<close> loop of line 93 runs over, if the pass gets there.\<close>

definition frame_instances :: "tick \<Rightarrow> (box \<times> int \<times> real \<times> int) list option" where
  "frame_instances tk =
     (case read tk of
        ReadOk h w \<Rightarrow>
          (case track tk of
             TrackReturns r \<Rightarrow>
               (case ids r of
                  Some track_ids \<Rightarrow> Some (zip4 (xyxy r) (cls r) (conf r) track_ids)
                | None \<Rightarrow> None)
           | TrackRaises \<Rightarrow> None)
      | _ \<Rightarrow> None)"

definition named :: "vision_system \<Rightarrow> box \<times> int \<times> real \<times> int \<Rightarrow> bool" where
  "named s d = (case d of (b, c, score, track_id) \<Rightarrow> names s c \<noteq> None)"

definition flagged_as :: "vision_system \<Rightarrow> int \<Rightarrow> box \<times> int \<times> real \<times> int \<Rightarrow> bool" where
  "flagged_as s t d =
     (case d of (b, c, score, track_id) \<Rightarrow>
        track_id = t \<and> (case names s c of Some label \<Rightarrow> flagged label | None \<Rightarrow> False))"

text \<open>
  The frame of this pass is read and tracked, every class in it has a name, and one of
  its instances has track id \<open>t\<close> and a flagged class.
\<close>

definition shows_flagged :: "tick \<Rightarrow> vision_system \<Rightarrow> int \<Rightarrow> bool" where
  "shows_flagged tk s t \<longleftrightarrow>
     camera s \<noteq> None \<and>
     (case frame_instances tk of
        None \<Rightarrow> False
      | Some ds \<Rightarrow> list_all (named s) ds \<and> list_ex (flagged_as s t) ds)"

text \<open>
  How a later state of a session relates to an earlier one: the class names and the
  camera are the same, the registry has only grown, the list of sink calls has only been
  extended, by calls for flagged classes, among them one for every track id that entered
  the registry, and \<open>registry_inv\<close> is kept.
\<close>

definition extends :: "vision_system \<Rightarrow> vision_system \<Rightarrow> bool" where
  "extends s s' \<longleftrightarrow>
     names s' = names s \<and> camera s' = camera s \<and>
     saved_stone_ids s \<subseteq> saved_stone_ids s' \<and>
     (\<exists>new. snapshots (trace s') = snapshots (trace s) @ new \<and> (\<forall>(t, l) \<in> set new. flagged l)
        \<and> saved_stone_ids s' \<subseteq> saved_stone_ids s \<union> fst ` set new) \<and>
     (registry_inv s \<longrightarrow> registry_inv s')"

definition new_snapshots :: "vision_system \<Rightarrow> vision_system \<Rightarrow> (int \<times> string) list" where
  "new_snapshots s s' = drop (length (snapshots (trace s))) (snapshots (trace s'))"

section \<open>A session to evaluate on\<close>

text \<open>
  The scenario of the specification: track 7 is seen as PEDRA in two frames, then track
  12 as OK and, a frame later, as BATATA-COM-PEDRA.
\<close>

definition example_names :: "int \<rightharpoonup> string" where
  "example_names = [0 \<mapsto> ''OK'', 1 \<mapsto> ''PEDRA'', 2 \<mapsto> ''PODRE'', 3 \<mapsto> ''BATATA-COM-PEDRA'']"

definition example_clock :: "nat \<Rightarrow> datetime" where
  "example_clock us =
     \<lparr>dt_day = 3, dt_month = 11, dt_year = 2026, dt_hour = 9, dt_minute = 5, dt_second = 7,
      dt_microsecond = us\<rparr>"

definition example_save :: "nat \<Rightarrow> imwrite_result \<Rightarrow> save_env" where
  "example_save us w =
     \<lparr>makedirs_raises = False, now1 = example_clock us, now2 = example_clock us, imwrite = w\<rparr>"

definition example_results :: "(box \<times> int \<times> real \<times> int) list \<Rightarrow> results" where
  "example_results ds =
     \<lparr>xyxy = map fst ds, cls = map (\<lambda>d. fst (snd d)) ds,
      conf = map (\<lambda>d. fst (snd (snd d))) ds,
      ids = Some (map (\<lambda>d. snd (snd (snd d))) ds)\<rparr>"

definition example_frame :: "(box \<times> int \<times> real \<times> int) list \<Rightarrow> (nat \<Rightarrow> save_env) \<Rightarrow> tick" where
  "example_frame ds se =
     \<lparr>read = ReadOk 1080 1980, track = TrackReturns (example_results ds),
      senv = se, imshow_raises = False, key = - 1\<rparr>"

definition example_start :: vision_system where
  "example_start = (VisionSystem 1 example_names False Map.empty)\<lparr>camera := Some True\<rparr>"

definition frame1 :: tick where
  "frame1 = example_frame [((100, 100, 200, 200), 1, 81 / 100, 7)] (\<lambda>i. example_save 45000 WriteOk)"

definition frame2 :: tick where
  "frame2 = example_frame [((110, 100, 210, 200), 1, 85 / 100, 7)] (\<lambda>i. example_save 95000 WriteOk)"

definition frame3 :: tick where
  "frame3 = example_frame [((300, 300, 400, 400), 0, 9 / 10, 12)] (\<lambda>i. example_save 145000 WriteOk)"

definition frame4 :: tick where
  "frame4 = example_frame [((310, 300, 410, 400), 3, 7 / 10, 12)] (\<lambda>i. example_save 195000 WriteOk)"

text \<open>The first frame again, with \<^verbatim>\<open>cv2.imwrite\<close> raising.\<close>

definition frame1_unwritable :: tick where
  "frame1_unwritable =
     example_frame [((100, 100, 200, 200), 1, 81 / 100, 7)] (\<lambda>i. example_save 45000 WriteRaises)"

text \<open>A frame with the same track id twice, classified PODRE and OK.\<close>

definition frame_unflagged :: tick where
  "frame_unflagged =
     example_frame [((100, 100, 200, 200), 2, 81 / 100, 7), ((100, 100, 200, 200), 0, 6 / 10, 7)]
       (\<lambda>i. example_save 45000 WriteOk)"

section \<open>Observations on one pass\<close>

definition detector_calls :: "vision_system \<Rightarrow> nat" where
  "detector_calls s = count_list (trace s) ModelTrack"

definition key_polls :: "vision_system \<Rightarrow> nat" where
  "key_polls s = count_list (trace s) WaitKey"

text \<open>The events that the sink and its call on line 104 can add to the trace.\<close>

fun sink_event :: "event \<Rightarrow> bool" where
  "sink_event (Snapshot t l) = True"
| "sink_event (Makedirs d) = True"
| "sink_event (Imwrite f) = True"
| "sink_event (Log lv m) = True"
| "sink_event _ = False"

text \<open>What \<open>n\<close> passes whose frame could not be read add to the trace.\<close>

definition failed_reads :: "nat \<Rightarrow> event list" where
  "failed_reads n =
     concat (replicate n [CameraRead, Log Warning ''Falha ao capturar frame da webcam''])"

text \<open>An exception is raised somewhere in the pass (and caught on line 111).\<close>

definition pass_raises :: "tick \<Rightarrow> vision_system \<Rightarrow> bool" where
  "pass_raises tk s \<longleftrightarrow>
     camera s = None \<or>
     (case read tk of
        ReadRaises \<Rightarrow> True
      | ReadFails \<Rightarrow> False
      | ReadOk h w \<Rightarrow>
          (case track tk of
             TrackRaises \<Rightarrow> True
           | TrackReturns r \<Rightarrow>
               fst (annotate_frame tk w h r (emit ModelTrack (emit CameraRead s)))
               \<or> imshow_raises tk))"

text \<open>The exception is raised before the loop over the instances is entered.\<close>

definition raises_early :: "tick \<Rightarrow> vision_system \<Rightarrow> bool" where
  "raises_early tk s \<longleftrightarrow>
     camera s = None \<or>
     (case read tk of
        ReadRaises \<Rightarrow> True
      | ReadFails \<Rightarrow> False
      | ReadOk h w \<Rightarrow> track tk = TrackRaises)"

text \<open>The frame is read, and the pass reaches line 108 without an exception.\<close>

definition pass_completes :: "tick \<Rightarrow> vision_system \<Rightarrow> bool" where
  "pass_completes tk s \<longleftrightarrow> \<not> pass_raises tk s \<and> read tk \<noteq> ReadFails"

text \<open>
  Passes with the stop key pressed: one whose frame cannot be read, one in which
  \<^verbatim>\<open>cv2.imshow\<close> raises, and one that completes.
\<close>

definition unread_q :: tick where
  "unread_q = (example_frame [] (\<lambda>i. example_save 45000 WriteOk))\<lparr>read := ReadFails, key := 113\<rparr>"

definition unshown_q :: tick where
  "unshown_q = frame1\<lparr>imshow_raises := True, key := 113\<rparr>"

definition frame3_q :: tick where
  "frame3_q = frame3\<lparr>key := 113\<rparr>"

text \<open>The first frame with the tracker raising.\<close>

definition frame1_untracked :: tick where
  "frame1_untracked = frame1\<lparr>track := TrackRaises\<rparr>"

section \<open>Runs of \<^verbatim>\<open>main\<close> to evaluate on\<close>

text \<open>The object built by \<^verbatim>\<open>__init__\<close> in \<^verbatim>\<open>main\<close> (camera index 1).\<close>

definition fresh :: vision_system where
  "fresh = VisionSystem 1 example_names False Map.empty"

text \<open>
  The camera opens, but creating the window raises; the loop then gets one frame to
  process, with the stop key pressed.
\<close>

definition window_fails :: main_env where
  "window_fails =
     \<lparr>init = \<lparr>capture = CaptureReturns True, setup_raises = True\<rparr>,
      ticks = [frame3_q],
      clean = \<lparr>release_raises = False, destroy_raises = False\<rparr>\<rparr>"

text \<open>No camera is connected; closing the windows raises during cleanup.\<close>

definition no_camera :: main_env where
  "no_camera =
     \<lparr>init = \<lparr>capture = CaptureReturns False, setup_raises = False\<rparr>,
      ticks = [frame1],
      clean = \<lparr>release_raises = False, destroy_raises = True\<rparr>\<rparr>"

text \<open>Two stones in one frame, saved within the same millisecond.\<close>

definition frame_two_stones :: tick where
  "frame_two_stones =
     example_frame [((100, 100, 200, 200), 1, 81 / 100, 7), ((300, 300, 400, 400), 3, 7 / 10, 12)]
       (\<lambda>i. if i = 0 then example_save 45100 WriteOk else example_save 45900 WriteOk)"

section \<open>The drawings of a frame\<close>

text \<open>What lines 94 to 101 draw for one instance, if its class has a name.\<close>

definition annotation :: "vision_system \<Rightarrow> nat \<Rightarrow> nat \<Rightarrow> box \<times> int \<times> real \<times> int \<Rightarrow> drawing list" where
  "annotation s w h d =
     (case d of (b, c, score, track_id) \<Rightarrow>
        (case names s c of Some label \<Rightarrow> annotate s w h b label score | None \<Rightarrow> []))"


section \<open>States that differ in the trace only\<close>

text \<open>The state \<open>s\<close> with the events \<open>p\<close> put in front of its trace.\<close>

definition retrace :: "event list \<Rightarrow> vision_system \<Rightarrow> vision_system" where
  "retrace p s = s\<lparr>trace := p @ trace s\<rparr>"

section \<open>Coordinate rescaling\<close>




section \<open>The registry and the sink\<close>

lemma snapshots_append: "snapshots (xs @ ys) = snapshots xs @ snapshots ys"
  by (induction xs rule: snapshots.induct) simp_all

lemma emit_fields:
  "saved_stone_ids (emit e s) = saved_stone_ids s"
  "names (emit e s) = names s"
  "colors (emit e s) = colors s"
  "camera (emit e s) = camera s"
  "save_path (emit e s) = save_path s"
  "files (emit e s) = files s"
  "dir_exists (emit e s) = dir_exists s"
  "trace (emit e s) = trace s @ [e]"
  by (simp_all add: emit_def)

lemma save_stone_image_fields:
  "saved_stone_ids (save_stone_image env img s) = saved_stone_ids s"
  "names (save_stone_image env img s) = names s"
  "colors (save_stone_image env img s) = colors s"
  "camera (save_stone_image env img s) = camera s"
  "save_path (save_stone_image env img s) = save_path s"
  by (simp_all add: save_stone_image_def emit_def Let_def split: imwrite_result.split)

lemma save_stone_image_snapshots:
  "snapshots (trace (save_stone_image env img s)) = snapshots (trace s)"
  by (simp add: save_stone_image_def emit_def Let_def snapshots_append
      split: imwrite_result.split)

lemma handle_instance_cases:
  assumes "handle_instance w h env (b, c, sc, t) img s = Some (img1, s1)"
  obtains (saved) label where "names s c = Some label" "flagged label"
      "t \<notin> saved_stone_ids s"
      "saved_stone_ids s1 = insert t (saved_stone_ids s)"
      "snapshots (trace s1) = snapshots (trace s) @ [(t, label)]"
      "names s1 = names s" "camera s1 = camera s"
  | (skipped) label where "names s c = Some label"
      "\<not> (flagged label \<and> t \<notin> saved_stone_ids s)" "s1 = s"
proof (cases "names s c")
  case None
  with assms show ?thesis by (simp add: handle_instance_def)
next
  case (Some label)
  show ?thesis
  proof (cases "flagged label \<and> t \<notin> saved_stone_ids s")
    case True
    define s' where "s' = save_stone_image env
          (img\<lparr>drawn := drawn img @ annotate s w h b label sc\<rparr>) (emit (Snapshot t label) s)"
    from True Some assms have "s1 = s'\<lparr>saved_stone_ids := insert t (saved_stone_ids s')\<rparr>"
      by (auto simp: handle_instance_def Let_def s'_def)
    then have "saved_stone_ids s1 = insert t (saved_stone_ids s)"
      and "snapshots (trace s1) = snapshots (trace s) @ [(t, label)]"
      and "names s1 = names s" and "camera s1 = camera s"
      by (simp_all add: s'_def save_stone_image_fields save_stone_image_snapshots emit_def
          snapshots_append)
    with Some True show ?thesis using saved by blast
  next
    case False
    with Some assms have "s1 = s" by (auto simp: handle_instance_def Let_def)
    with Some False show ?thesis using skipped by blast
  qed
qed

text \<open>What one instance does to the registry and to the list of sink calls.\<close>

lemma handle_instance_step:
  assumes "handle_instance w h env d img s = Some (img1, s1)"
  shows "names s1 = names s \<and> camera s1 = camera s
    \<and> saved_stone_ids s \<subseteq> saved_stone_ids s1
    \<and> (\<exists>new. snapshots (trace s1) = snapshots (trace s) @ new
          \<and> (\<forall>(t, l) \<in> set new. flagged l)
          \<and> saved_stone_ids s1 \<subseteq> saved_stone_ids s \<union> fst ` set new)
    \<and> (registry_inv s \<longrightarrow> registry_inv s1)
    \<and> (flagged_as s t d \<longrightarrow> t \<in> saved_stone_ids s1)"
proof -
  obtain b c sc t' where d: "d = (b, c, sc, t')" by (cases d) auto
  from assms[unfolded d] show ?thesis
  proof (cases rule: handle_instance_cases)
    case (saved label)
    then show ?thesis
      by (auto simp: registry_inv_def sink_ids_def flagged_as_def d)
  next
    case (skipped label)
    then show ?thesis by (auto simp: flagged_as_def d)
  qed
qed

lemma extends_refl: "extends s s"
  by (simp add: extends_def)

lemma extends_trans:
  assumes "extends s s1" "extends s1 s2"
  shows "extends s s2"
proof -
  from assms(1) obtain n1 where n1: "snapshots (trace s1) = snapshots (trace s) @ n1"
    "\<forall>(t, l) \<in> set n1. flagged l"
    "saved_stone_ids s1 \<subseteq> saved_stone_ids s \<union> fst ` set n1"
    unfolding extends_def by blast
  from assms(2) obtain n2 where n2: "snapshots (trace s2) = snapshots (trace s1) @ n2"
    "\<forall>(t, l) \<in> set n2. flagged l"
    "saved_stone_ids s2 \<subseteq> saved_stone_ids s1 \<union> fst ` set n2"
    unfolding extends_def by blast
  from n1 n2 have "snapshots (trace s2) = snapshots (trace s) @ (n1 @ n2)"
    "\<forall>(t, l) \<in> set (n1 @ n2). flagged l"
    by auto
  moreover from n1(3) n2(3)
  have "saved_stone_ids s2 \<subseteq> saved_stone_ids s \<union> fst ` set (n1 @ n2)"
    by (simp only: set_append image_Un) blast
  ultimately have "snapshots (trace s2) = snapshots (trace s) @ (n1 @ n2)"
    "\<forall>(t, l) \<in> set (n1 @ n2). flagged l"
    "saved_stone_ids s2 \<subseteq> saved_stone_ids s \<union> fst ` set (n1 @ n2)" by blast+
  then have "\<exists>new. snapshots (trace s2) = snapshots (trace s) @ new
      \<and> (\<forall>(t, l) \<in> set new. flagged l)
      \<and> saved_stone_ids s2 \<subseteq> saved_stone_ids s \<union> fst ` set new" by blast
  moreover from assms have "names s2 = names s" "camera s2 = camera s"
    "saved_stone_ids s \<subseteq> saved_stone_ids s2" "registry_inv s \<longrightarrow> registry_inv s2"
    unfolding extends_def by auto
  ultimately show ?thesis unfolding extends_def by blast
qed

lemma extends_emit:
  assumes "extends s s1" "snapshots [e] = []"
  shows "extends s (emit e s1)"
proof -
  from assms(2) have "extends s1 (emit e s1)"
    by (simp add: extends_def emit_def snapshots_append registry_inv_def sink_ids_def)
  with assms(1) show ?thesis by (rule extends_trans)
qed

lemma handle_instance_extends:
  assumes "handle_instance w h env d img s = Some (img1, s1)"
  shows "extends s s1"
  using handle_instance_step[OF assms, of 0] by (simp add: extends_def)

lemma instances_extends:
  assumes "instances w h se i ds img s = (raised, img1, s1)"
  shows "extends s s1"
  using assms
proof (induction ds arbitrary: i img s)
  case Nil
  then show ?case by (simp add: extends_refl)
next
  case (Cons d ds)
  show ?case
  proof (cases "handle_instance w h (se i) d img s")
    case None
    with Cons.prems show ?thesis by (simp add: extends_refl)
  next
    case (Some p)
    obtain img2 s2 where p: "p = (img2, s2)" by (cases p) auto
    from handle_instance_extends[OF Some[unfolded p]] have one: "extends s s2" .
    from Some p Cons.prems have "instances w h se (Suc i) ds img2 s2 = (raised, img1, s1)"
      by simp
    from Cons.IH[OF this] have "extends s2 s1" .
    with one show ?thesis by (rule extends_trans)
  qed
qed

lemma instances_step:
  assumes "instances w h se i ds img s = (raised, img1, s1)"
  shows "names s1 = names s \<and> camera s1 = camera s
    \<and> saved_stone_ids s \<subseteq> saved_stone_ids s1
    \<and> (registry_inv s \<longrightarrow> registry_inv s1)"
  using instances_extends[OF assms] by (simp add: extends_def)

lemma annotate_frame_extends:
  assumes "annotate_frame tk w h r s = (raised, img1, s1)"
  shows "extends s s1"
  using assms
  by (auto simp: annotate_frame_def Let_def extends_refl split: option.splits
      dest: instances_extends)

lemma iteration_extends: "extends s (snd (iteration tk s))"
proof -
  have base: "extends s (emit ModelTrack (emit CameraRead s))"
    by (intro extends_emit extends_refl) simp_all
  have "extends s s2"
    if "annotate_frame tk w h r (emit ModelTrack (emit CameraRead s)) = (raised, img, s2)"
    for s2 w h r raised img
    using that base annotate_frame_extends extends_trans by blast
  then show ?thesis
    by (auto simp: iteration_def Let_def extends_refl split: read_result.splits
        track_result.splits prod.splits intro!: extends_emit)
qed

lemma process_frame_extends: "extends s (snd (process_frame tks s))"
proof (induction tks arbitrary: s)
  case Nil
  show ?case by (simp add: extends_refl)
next
  case (Cons tk tks)
  obtain fl s1 where it: "iteration tk s = (fl, s1)" by (cases "iteration tk s") auto
  from iteration_extends[of s tk] it have e1: "extends s s1" by simp
  show ?case
  proof (cases fl)
    case Continue
    with it have "process_frame (tk # tks) s = process_frame tks s1" by simp
    with e1 Cons.IH[of s1] show ?thesis by (simp add: extends_trans)
  next
    case Break
    with it e1 show ?thesis by simp
  qed
qed

section \<open>Evaluation on concrete sessions\<close>

lemmas eval_defs = iteration_def annotate_frame_def handle_instance_def save_stone_image_def
  emit_def zip4_def example_frame_def example_results_def example_start_def VisionSystem_def example_names_def
  example_save_def example_clock_def flagged_def frame1_def frame2_def frame3_def frame4_def
  sink_ids_def new_sink_ids_def new_snapshots_def Let_def

section \<open>At most one snapshot per track id\<close>

lemma handle_instance_named:
  assumes "named s d"
  shows "\<exists>img1 s1. handle_instance w h env d img s = Some (img1, s1)"
  using assms by (cases d) (auto simp: named_def handle_instance_def Let_def)

lemma instances_named:
  assumes "list_all (named s) ds" "instances w h se i ds img s = (raised, img1, s1)"
  shows "\<not> raised \<and> (\<forall>d \<in> set ds. flagged_as s t d \<longrightarrow> t \<in> saved_stone_ids s1)"
  using assms
proof (induction ds arbitrary: i img s)
  case Nil
  then show ?case by simp
next
  case (Cons d ds)
  from Cons.prems(1) have nd: "named s d" and nds: "list_all (named s) ds" by simp_all
  from handle_instance_named[OF nd] obtain img2 s2
    where h: "handle_instance w h (se i) d img s = Some (img2, s2)" by blast
  note one = handle_instance_step[OF h, of t]
  then have nm: "names s2 = names s" by simp
  then have same: "named s2 = named s" "flagged_as s2 t = flagged_as s t"
    by (auto simp: named_def flagged_as_def fun_eq_iff)
  from h Cons.prems(2) have run: "instances w h se (Suc i) ds img2 s2 = (raised, img1, s1)"
    by simp
  from nds same have "list_all (named s2) ds" by simp
  from Cons.IH[OF this run] same
  have rest: "\<not> raised" "\<forall>d \<in> set ds. flagged_as s t d \<longrightarrow> t \<in> saved_stone_ids s1"
    by simp_all
  from instances_step[OF run] have "saved_stone_ids s2 \<subseteq> saved_stone_ids s1" by simp
  with one have "flagged_as s t d \<longrightarrow> t \<in> saved_stone_ids s1" by blast
  with rest show ?case by simp
qed

lemma iteration_shows_flagged:
  assumes "shows_flagged tk s t"
  shows "t \<in> saved_stone_ids (snd (iteration tk s))"
proof -
  from assms obtain ds where cam: "camera s \<noteq> None" and fi: "frame_instances tk = Some ds"
    and nd: "list_all (named s) ds" and ex: "list_ex (flagged_as s t) ds"
    by (auto simp: shows_flagged_def split: option.splits)
  from fi obtain h w r tids where tk: "read tk = ReadOk h w" "track tk = TrackReturns r"
    "ids r = Some tids" "ds = zip4 (xyxy r) (cls r) (conf r) tids"
    by (auto simp: frame_instances_def split: read_result.splits track_result.splits
        option.splits)
  define s1 where "s1 = emit ModelTrack (emit CameraRead s)"
  obtain raised img s2 where run: "annotate_frame tk w h r s1 = (raised, img, s2)"
    by (cases "annotate_frame tk w h r s1") auto
  then have ins: "instances w h (senv tk) 0 ds
      \<lparr>shape_h = h, shape_w = w, drawn = []\<rparr> s1 = (raised, img, s2)"
    by (simp add: annotate_frame_def tk)
  have same: "named s1 = named s" "flagged_as s1 t = flagged_as s t"
    by (auto simp: named_def flagged_as_def fun_eq_iff s1_def emit_def)
  from nd same have "list_all (named s1) ds" by simp
  from instances_named[OF this ins, of t] same ex
  have "\<not> raised" "t \<in> saved_stone_ids s2" by (auto simp: list_ex_iff)
  with cam tk run[unfolded s1_def] show ?thesis
    by (auto simp: iteration_def Let_def emit_fields)
qed

lemma count_list_distinct:
  "distinct xs \<Longrightarrow> count_list xs x = (if x \<in> set xs then 1 else 0)"
  by (induction xs) auto

lemma extends_new_sink_ids:
  assumes "extends s s'" "registry_inv s"
  shows "sink_ids s' = sink_ids s @ new_sink_ids s s'"
    and "distinct (new_sink_ids s s')"
    and "set (new_sink_ids s s') = saved_stone_ids s' - saved_stone_ids s"
proof -
  from assms(1) obtain new where "snapshots (trace s') = snapshots (trace s) @ new"
    by (auto simp: extends_def)
  then have app: "sink_ids s' = sink_ids s @ map fst new" by (simp add: sink_ids_def)
  then have new: "new_sink_ids s s' = map fst new" by (simp add: new_sink_ids_def)
  from assms have inv': "registry_inv s'" by (simp add: extends_def)
  from app new show "sink_ids s' = sink_ids s @ new_sink_ids s s'" by simp
  from inv' app new show "distinct (new_sink_ids s s')" by (simp add: registry_inv_def)
  from inv' assms(2) app new
  show "set (new_sink_ids s s') = saved_stone_ids s' - saved_stone_ids s"
    by (auto simp: registry_inv_def)
qed

text \<open>
  C1. In a session that starts with an empty registry and no sink call made, take the
  state \<open>s\<close> reached after any number of passes, and the state \<open>s'\<close> after one more
  pass. For every track id \<open>t\<close>: the sink has been called at most once for \<open>t\<close>, and
  exactly once if and only if \<open>t\<close> is in the registry; the registry only grows; if \<open>t\<close>
  is already in the registry, the pass makes no sink call for \<open>t\<close>; and if \<open>t\<close> is not
  yet in it and the frame of the pass shows \<open>t\<close> with a flagged class, the pass makes
  exactly one sink call for \<open>t\<close> and \<open>t\<close> enters the registry.
\<close>

theorem snapshot_at_most_once_per_track_id:
  assumes "saved_stone_ids s0 = {}" and "sink_ids s0 = []"
    and "s = snd (process_frame tks s0)" and "s' = snd (iteration tk s)"
  shows "count_list (sink_ids s) t \<le> 1
    \<and> (count_list (sink_ids s) t = 1 \<longleftrightarrow> t \<in> saved_stone_ids s)
    \<and> saved_stone_ids s0 \<subseteq> saved_stone_ids s \<and> saved_stone_ids s \<subseteq> saved_stone_ids s'
    \<and> sink_ids s' = sink_ids s @ new_sink_ids s s'
    \<and> (t \<in> saved_stone_ids s \<longrightarrow> count_list (new_sink_ids s s') t = 0)
    \<and> (t \<notin> saved_stone_ids s \<and> shows_flagged tk s t \<longrightarrow>
         count_list (new_sink_ids s s') t = 1 \<and> t \<in> saved_stone_ids s')"
proof -
  from assms(1,2) have inv0: "registry_inv s0" by (simp add: registry_inv_def)
  from process_frame_extends[of s0 tks] assms(3) have e0: "extends s0 s" by simp
  with inv0 have inv: "registry_inv s" by (simp add: extends_def)
  from iteration_extends[of s tk] assms(4) have e1: "extends s s'" by simp
  note new = extends_new_sink_ids[OF e1 inv]
  from inv have "distinct (sink_ids s)" "set (sink_ids s) = saved_stone_ids s"
    by (simp_all add: registry_inv_def)
  then have c: "count_list (sink_ids s) t = (if t \<in> saved_stone_ids s then 1 else 0)"
    by (simp add: count_list_distinct)
  have cn: "count_list (new_sink_ids s s') t =
      (if t \<in> saved_stone_ids s' - saved_stone_ids s then 1 else 0)"
    using new(2,3) by (simp add: count_list_distinct)
  have "t \<in> saved_stone_ids s'" if "shows_flagged tk s t"
    using iteration_shows_flagged[OF that] assms(4) by simp
  with c cn e0 e1 new(1) show ?thesis by (auto simp: extends_def)
qed

theorem snapshot_at_most_once_per_track_id_witness:
  "saved_stone_ids example_start = {} \<and> sink_ids example_start = []
   \<and> shows_flagged frame4 (snd (process_frame [frame1, frame2, frame3] example_start)) 12
   \<and> 7 \<in> saved_stone_ids (snd (process_frame [frame1, frame2, frame3] example_start))
   \<and> count_list (sink_ids (snd (process_frame [frame1, frame2, frame3] example_start))) 7 = 1
   \<and> count_list (new_sink_ids (snd (process_frame [frame1, frame2, frame3] example_start))
        (snd (iteration frame4 (snd (process_frame [frame1, frame2, frame3] example_start))))) 12 = 1"
proof -
  have h1: "saved_stone_ids example_start = {}" and h2: "sink_ids example_start = []"
    by (simp_all add: eval_defs)
  have h3: "shows_flagged frame4 (snd (process_frame [frame1, frame2, frame3] example_start)) 12"
    by (simp add: eval_defs shows_flagged_def frame_instances_def named_def flagged_as_def)
  have h4: "12 \<notin> saved_stone_ids (snd (process_frame [frame1, frame2, frame3] example_start))"
    and h5: "7 \<in> saved_stone_ids (snd (process_frame [frame1, frame2, frame3] example_start))"
    by (simp_all add: eval_defs)
  from snapshot_at_most_once_per_track_id[OF h1 h2 refl refl, of "[frame1, frame2, frame3]" 7 frame4]
    snapshot_at_most_once_per_track_id[OF h1 h2 refl refl, of "[frame1, frame2, frame3]" 12 frame4]
    h1 h2 h3 h4 h5
  show ?thesis by simp
qed

section \<open>Only flagged classes reach the sink\<close>

lemma extends_new_snapshots:
  assumes "extends s s'"
  shows "snapshots (trace s') = snapshots (trace s) @ new_snapshots s s'"
    and "list_all (\<lambda>(t, l). flagged l) (new_snapshots s s')"
proof -
  from assms obtain new where new: "snapshots (trace s') = snapshots (trace s) @ new"
    "\<forall>(t, l) \<in> set new. flagged l" by (auto simp: extends_def)
  then have "new_snapshots s s' = new" by (simp add: new_snapshots_def)
  with new show "snapshots (trace s') = snapshots (trace s) @ new_snapshots s s'"
    and "list_all (\<lambda>(t, l). flagged l) (new_snapshots s s')"
    by (simp_all add: list_all_iff)
qed

text \<open>
  C10. Whatever the session, every call of the sink it makes is for an instance whose
  class label is flagged; an instance whose label is not flagged leaves the whole state
  (registry, files, trace) as it is, whatever its track id and whatever the registry
  holds. The flagged labels are exactly PEDRA, PEDRA-NA-BATATA and BATATA-COM-PEDRA:
  PODRE and OK are not flagged, although PODRE has its own colour.
\<close>

theorem only_flagged_classes_trigger_snapshots:
  "snapshots (trace (snd (process_frame tks s))) =
     snapshots (trace s) @ new_snapshots s (snd (process_frame tks s))
   \<and> list_all (\<lambda>(t, l). flagged l) (new_snapshots s (snd (process_frame tks s)))
   \<and> (names s c = Some label \<and> \<not> flagged label \<longrightarrow>
        (\<exists>img1. handle_instance w h env (b, c, sc, t) img s = Some (img1, s)))
   \<and> (flagged label \<longleftrightarrow> label \<in> {''PEDRA'', ''PEDRA-NA-BATATA'', ''BATATA-COM-PEDRA''})
   \<and> \<not> flagged ''PODRE'' \<and> \<not> flagged ''OK''
   \<and> colors_table ''PODRE'' = Some (255, 0, 0)"
proof -
  note ext = extends_new_snapshots[OF process_frame_extends[of s tks]]
  have "\<exists>img1. handle_instance w h env (b, c, sc, t) img s = Some (img1, s)"
    if "names s c = Some label" "\<not> flagged label"
    using that by (simp add: handle_instance_def Let_def)
  moreover have "flagged label \<longleftrightarrow> label \<in> {''PEDRA'', ''PEDRA-NA-BATATA'', ''BATATA-COM-PEDRA''}"
    by (auto simp: flagged_def)
  moreover have "\<not> flagged ''PODRE''" "\<not> flagged ''OK''"
    "colors_table ''PODRE'' = Some (255, 0, 0)"
    by (simp_all add: flagged_def colors_table_def)
  ultimately show ?thesis using ext by blast
qed

theorem only_flagged_classes_trigger_snapshots_witness:
  "names example_start 2 = Some ''PODRE'' \<and> \<not> flagged ''PODRE''
   \<and> (\<exists>img1. handle_instance 1980 1080 (example_save 45000 WriteOk)
         ((100, 100, 200, 200), 2, 81 / 100, 7)
         \<lparr>shape_h = 1080, shape_w = 1980, drawn = []\<rparr> example_start = Some (img1, example_start))
   \<and> new_snapshots example_start
        (snd (process_frame [frame_unflagged, frame_unflagged] example_start)) = []
   \<and> list_all (\<lambda>(t, l). flagged l) (new_snapshots example_start
        (snd (process_frame [frame1, frame2, frame3, frame4] example_start)))"
proof -
  have h: "names example_start 2 = Some ''PODRE'' \<and> \<not> flagged ''PODRE''"
    by (simp add: eval_defs)
  have e: "new_snapshots example_start
      (snd (process_frame [frame_unflagged, frame_unflagged] example_start)) = []"
    by (simp add: eval_defs frame_unflagged_def)
  from only_flagged_classes_trigger_snapshots[of "[frame1, frame2, frame3, frame4]"
      example_start 2 "''PODRE''" 1980 1080 "example_save 45000 WriteOk" "(100, 100, 200, 200)"
      "81 / 100" 7 "\<lparr>shape_h = 1080, shape_w = 1980, drawn = []\<rparr>"] h e
  show ?thesis by simp
qed

section \<open>The registry after a failed save\<close>

lemma save_stone_image_failed:
  assumes "(\<not> dir_exists s \<and> makedirs_raises env) \<or> imwrite env \<noteq> WriteOk"
  shows "files (save_stone_image env img s) = files s"
  using assms
  by (auto simp: save_stone_image_def Let_def emit_fields split: imwrite_result.splits)

text \<open>
  C2, as the code has it. When an instance has a flagged class and its track id is not
  in the registry, the sink is called once and the id is inserted when the call returns,
  whatever happened inside the sink: when creating the directory or writing the file
  failed, no file has been written and the id is in the registry all the same. A later
  instance with the same flagged track id then changes nothing: no new attempt is made.
\<close>

theorem registry_updated_after_sink_returns:
  assumes "names s c = Some label" and "flagged label" and "t \<notin> saved_stone_ids s"
  shows "\<exists>img1 s1. handle_instance w h env (b, c, sc, t) img s = Some (img1, s1)
    \<and> saved_stone_ids s1 = insert t (saved_stone_ids s)
    \<and> snapshots (trace s1) = snapshots (trace s) @ [(t, label)]
    \<and> ((\<not> dir_exists s \<and> makedirs_raises env) \<or> imwrite env \<noteq> WriteOk \<longrightarrow>
         files s1 = files s)
    \<and> (\<exists>img2. handle_instance w' h' env' (b', c, sc', t) img' s1 = Some (img2, s1))"
proof -
  define img1 where "img1 = img\<lparr>drawn := drawn img @ annotate s w h b label sc\<rparr>"
  define s' where "s' = save_stone_image env img1 (emit (Snapshot t label) s)"
  define s1 where "s1 = s'\<lparr>saved_stone_ids := insert t (saved_stone_ids s')\<rparr>"
  from assms have run: "handle_instance w h env (b, c, sc, t) img s = Some (img1, s1)"
    by (simp add: handle_instance_def Let_def img1_def s'_def s1_def)
  have reg: "saved_stone_ids s1 = insert t (saved_stone_ids s)"
    by (simp add: s1_def s'_def save_stone_image_fields emit_fields)
  have snaps: "snapshots (trace s1) = snapshots (trace s) @ [(t, label)]"
    by (simp add: s1_def s'_def save_stone_image_snapshots emit_fields snapshots_append)
  have fl: "files s1 = files s"
    if "(\<not> dir_exists s \<and> makedirs_raises env) \<or> imwrite env \<noteq> WriteOk"
  proof -
    from that have "(\<not> dir_exists (emit (Snapshot t label) s) \<and> makedirs_raises env)
        \<or> imwrite env \<noteq> WriteOk" by (simp add: emit_fields)
    from save_stone_image_failed[OF this] show ?thesis
      by (simp add: s1_def s'_def emit_fields)
  qed
  have nm: "names s1 = names s"
    by (simp add: s1_def s'_def save_stone_image_fields emit_fields)
  with assms(1) reg
  have again: "\<exists>img2. handle_instance w' h' env' (b', c, sc', t) img' s1 = Some (img2, s1)"
    by (simp add: handle_instance_def Let_def)
  from run reg snaps fl again show ?thesis by blast
qed

theorem registry_updated_after_sink_returns_witness:
  "names example_start 1 = Some ''PEDRA'' \<and> flagged ''PEDRA''
   \<and> 7 \<notin> saved_stone_ids example_start
   \<and> (\<exists>img1 s1. handle_instance 1980 1080 (example_save 45000 WriteRaises)
         ((100, 100, 200, 200), 1, 81 / 100, 7)
         \<lparr>shape_h = 1080, shape_w = 1980, drawn = []\<rparr> example_start = Some (img1, s1)
       \<and> saved_stone_ids s1 = {7} \<and> files s1 = files example_start)"
proof -
  have h1: "names example_start 1 = Some ''PEDRA''" and h2: "flagged ''PEDRA''"
    and h3: "7 \<notin> saved_stone_ids example_start"
    and h4: "imwrite (example_save 45000 WriteRaises) \<noteq> WriteOk"
    and h5: "saved_stone_ids example_start = {}"
    by (simp_all add: eval_defs)
  from registry_updated_after_sink_returns[OF h1 h2 h3,
      where w = 1980 and h = 1080 and env = "example_save 45000 WriteRaises"
        and b = "(100, 100, 200, 200)" and sc = "81 / 100"
        and img = "\<lparr>shape_h = 1080, shape_w = 1980, drawn = []\<rparr>"
        and w' = 1980 and h' = 1080 and env' = "example_save 45000 WriteRaises"
        and b' = "(100, 100, 200, 200)" and sc' = "81 / 100"
        and img' = "\<lparr>shape_h = 1080, shape_w = 1980, drawn = []\<rparr>"]
  obtain img1 s1 where r: "handle_instance 1980 1080 (example_save 45000 WriteRaises)
         ((100, 100, 200, 200), 1, 81 / 100, 7)
         \<lparr>shape_h = 1080, shape_w = 1980, drawn = []\<rparr> example_start = Some (img1, s1)"
    "saved_stone_ids s1 = insert 7 (saved_stone_ids example_start)"
    "(\<not> dir_exists example_start \<and> makedirs_raises (example_save 45000 WriteRaises))
       \<or> imwrite (example_save 45000 WriteRaises) \<noteq> WriteOk \<longrightarrow> files s1 = files example_start"
    by blast
  from r h4 h5 have "saved_stone_ids s1 = {7}" "files s1 = files example_start"
    by simp_all
  with r(1) have "\<exists>img1 s1. handle_instance 1980 1080 (example_save 45000 WriteRaises)
         ((100, 100, 200, 200), 1, 81 / 100, 7)
         \<lparr>shape_h = 1080, shape_w = 1980, drawn = []\<rparr> example_start = Some (img1, s1)
       \<and> saved_stone_ids s1 = {7} \<and> files s1 = files example_start" by blast
  with h1 h2 h3 show ?thesis by blast
qed

text \<open>
  C2, as the claim states it, fails: in the first frame of the scenario let
  \<^verbatim>\<open>cv2.imwrite\<close> raise. The sink was called and nothing was written, yet track 7 is in
  the registry after the pass, and the second frame, which shows track 7 as PEDRA again,
  makes no further sink call.
\<close>

theorem registry_marks_failed_save_counterexample:
  "imwrite (senv frame1_unwritable 0) = WriteRaises
   \<and> sink_ids (snd (iteration frame1_unwritable example_start)) = [7]
   \<and> files (snd (iteration frame1_unwritable example_start)) = files example_start
   \<and> 7 \<in> saved_stone_ids (snd (iteration frame1_unwritable example_start))
   \<and> shows_flagged frame2 (snd (iteration frame1_unwritable example_start)) 7
   \<and> new_sink_ids (snd (iteration frame1_unwritable example_start))
        (snd (iteration frame2 (snd (iteration frame1_unwritable example_start)))) = []"
  by (simp add: eval_defs frame1_unwritable_def shows_flagged_def frame_instances_def
      named_def flagged_as_def)

section \<open>What the loop over the instances adds to the trace\<close>

lemma save_stone_image_trace:
  "\<exists>es. trace (save_stone_image env img s) = trace s @ es \<and> list_all sink_event es"
  by (simp add: save_stone_image_def Let_def emit_def split: imwrite_result.split)

lemma handle_instance_trace:
  assumes "handle_instance w h env d img s = Some (img1, s1)"
  shows "\<exists>es. trace s1 = trace s @ es \<and> list_all sink_event es"
proof -
  obtain b c sc t where d: "d = (b, c, sc, t)" by (cases d) auto
  from assms obtain label where l: "names s c = Some label"
    by (auto simp: handle_instance_def d split: option.splits)
  show ?thesis
  proof (cases "flagged label \<and> t \<notin> saved_stone_ids s")
    case True
    define s0 where "s0 = emit (Snapshot t label) s"
    from save_stone_image_trace[of env "img\<lparr>drawn := drawn img @ annotate s w h b label sc\<rparr>" s0]
    obtain es where es: "trace (save_stone_image env
        (img\<lparr>drawn := drawn img @ annotate s w h b label sc\<rparr>) s0) = trace s0 @ es"
      "list_all sink_event es" by blast
    from assms True l have "trace s1 = trace (save_stone_image env
        (img\<lparr>drawn := drawn img @ annotate s w h b label sc\<rparr>) s0)"
      by (auto simp: handle_instance_def d Let_def s0_def)
    with es have "trace s1 = trace s @ (Snapshot t label # es)"
      "list_all sink_event (Snapshot t label # es)"
      by (simp_all add: s0_def emit_def)
    then show ?thesis by blast
  next
    case False
    with assms l have "s1 = s" by (auto simp: handle_instance_def d Let_def)
    then show ?thesis by simp
  qed
qed

lemma instances_trace:
  assumes "instances w h se i ds img s = (raised, img1, s1)"
  shows "\<exists>es. trace s1 = trace s @ es \<and> list_all sink_event es"
  using assms
proof (induction ds arbitrary: i img s)
  case Nil
  then show ?case by simp
next
  case (Cons d ds)
  show ?case
  proof (cases "handle_instance w h (se i) d img s")
    case None
    with Cons.prems show ?thesis by simp
  next
    case (Some p)
    obtain img2 s2 where p: "p = (img2, s2)" by (cases p) auto
    from handle_instance_trace[OF Some[unfolded p]] obtain es1
      where es1: "trace s2 = trace s @ es1" "list_all sink_event es1" by blast
    from Some p Cons.prems have "instances w h se (Suc i) ds img2 s2 = (raised, img1, s1)"
      by simp
    from Cons.IH[OF this] obtain es2
      where es2: "trace s1 = trace s2 @ es2" "list_all sink_event es2" by blast
    from es1 es2 have "trace s1 = trace s @ (es1 @ es2)" "list_all sink_event (es1 @ es2)"
      by simp_all
    then show ?thesis by blast
  qed
qed

lemma annotate_frame_trace:
  assumes "annotate_frame tk w h r s = (raised, img1, s1)"
  shows "\<exists>es. trace s1 = trace s @ es \<and> list_all sink_event es"
  using assms
  by (auto simp: annotate_frame_def Let_def split: option.splits dest: instances_trace)

lemma count_list_sink_events:
  assumes "list_all sink_event es" "\<not> sink_event e"
  shows "count_list es e = 0"
  using assms by (induction es) auto

lemma annotate_frame_counts:
  assumes "annotate_frame tk w h r s = (raised, img1, s1)"
  shows "detector_calls s1 = detector_calls s" and "key_polls s1 = key_polls s"
proof -
  from annotate_frame_trace[OF assms] obtain es
    where es: "trace s1 = trace s @ es" "list_all sink_event es" by blast
  from es(2) have "count_list es ModelTrack = 0" "count_list es WaitKey = 0"
    by (simp_all add: count_list_sink_events)
  with es(1) show "detector_calls s1 = detector_calls s" and "key_polls s1 = key_polls s"
    by (simp_all add: detector_calls_def key_polls_def)
qed

section \<open>Passes whose frame cannot be read\<close>

lemma iteration_read_fails:
  assumes "camera s \<noteq> None" "read tk = ReadFails"
  shows "iteration tk s = (Continue,
    s\<lparr>trace := trace s @ [CameraRead, Log Warning ''Falha ao capturar frame da webcam'']\<rparr>)"
  using assms by (auto simp: iteration_def emit_def)

lemma failed_reads_Suc:
  "failed_reads (Suc n) =
     [CameraRead, Log Warning ''Falha ao capturar frame da webcam''] @ failed_reads n"
  by (simp add: failed_reads_def)

lemma failed_reads_quiet:
  "count_list (failed_reads n) ModelTrack = 0 \<and> snapshots (failed_reads n) = []"
  by (induction n) (simp_all add: failed_reads_def)

lemma process_frame_failed_reads:
  assumes "camera s \<noteq> None" "\<forall>tk \<in> set fs. read tk = ReadFails"
  shows "process_frame (fs @ rest) s =
    process_frame rest (s\<lparr>trace := trace s @ failed_reads (length fs)\<rparr>)"
  using assms
proof (induction fs arbitrary: s)
  case Nil
  then show ?case by (simp add: failed_reads_def)
next
  case (Cons f fs)
  define s1 where "s1 = s\<lparr>trace := trace s @
    [CameraRead, Log Warning ''Falha ao capturar frame da webcam'']\<rparr>"
  from Cons.prems have it: "iteration f s = (Continue, s1)"
    by (simp add: iteration_read_fails s1_def)
  from Cons.prems have "camera s1 \<noteq> None" "\<forall>tk \<in> set fs. read tk = ReadFails"
    by (simp_all add: s1_def)
  from Cons.IH[OF this] have "process_frame (fs @ rest) s1 =
      process_frame rest (s1\<lparr>trace := trace s1 @ failed_reads (length fs)\<rparr>)" .
  moreover have "s1\<lparr>trace := trace s1 @ failed_reads (length fs)\<rparr> =
      s\<lparr>trace := trace s @ failed_reads (length (f # fs))\<rparr>"
    by (simp add: s1_def failed_reads_Suc)
  ultimately show ?case using it by simp
qed

lemma iteration_read_ok_detects:
  assumes "camera s \<noteq> None" "read tk = ReadOk h w"
  shows "detector_calls (snd (iteration tk s)) = detector_calls s + 1"
proof (cases "track tk")
  case TrackRaises
  with assms show ?thesis
    by (simp add: iteration_def Let_def emit_def detector_calls_def)
next
  case (TrackReturns r)
  define s1 where "s1 = emit ModelTrack (emit CameraRead s)"
  obtain raised img s2 where run: "annotate_frame tk w h r s1 = (raised, img, s2)"
    by (cases "annotate_frame tk w h r s1") auto
  from annotate_frame_counts(1)[OF run] have "detector_calls s2 = detector_calls s + 1"
    by (simp add: s1_def emit_def detector_calls_def)
  with assms TrackReturns run[unfolded s1_def] show ?thesis
    by (simp add: iteration_def Let_def detector_calls_def emit_fields)
qed

subsection \<open>The program does not read the trace\<close>

lemma retrace_fields:
  "saved_stone_ids (retrace p s) = saved_stone_ids s"
  "names (retrace p s) = names s"
  "colors (retrace p s) = colors s"
  "camera (retrace p s) = camera s"
  "save_path (retrace p s) = save_path s"
  "files (retrace p s) = files s"
  "dir_exists (retrace p s) = dir_exists s"
  "trace (retrace p s) = p @ trace s"
  by (simp_all add: retrace_def)

lemma emit_retrace: "emit e (retrace p s) = retrace p (emit e s)"
  by (simp add: emit_def retrace_def)

lemma save_stone_image_retrace:
  "save_stone_image env img (retrace p s) = retrace p (save_stone_image env img s)"
  by (simp add: save_stone_image_def Let_def emit_def retrace_def split: imwrite_result.split)

lemma annotate_retrace: "annotate (retrace p s) = annotate s"
  by (simp add: annotate_def retrace_def fun_eq_iff)

lemma handle_instance_retrace:
  "handle_instance w h env d img (retrace p s) =
     map_option (\<lambda>(img1, s1). (img1, retrace p s1)) (handle_instance w h env d img s)"
proof -
  obtain b c sc t where d: "d = (b, c, sc, t)" by (cases d) auto
  have upd: "(retrace p s')\<lparr>saved_stone_ids := v\<rparr> =
      retrace p (s'\<lparr>saved_stone_ids := v\<rparr>)" for s' v
    by (simp add: retrace_def)
  show ?thesis
    by (simp add: handle_instance_def d Let_def retrace_fields annotate_retrace emit_retrace
        save_stone_image_retrace upd split: option.split)
qed

lemma instances_retrace:
  "instances w h se i ds img (retrace p s) =
     (case instances w h se i ds img s of (raised, img1, s1) \<Rightarrow> (raised, img1, retrace p s1))"
proof (induction ds arbitrary: i img s)
  case Nil
  show ?case by simp
next
  case (Cons d ds)
  show ?case
  proof (cases "handle_instance w h (se i) d img s")
    case None
    then show ?thesis by (simp add: handle_instance_retrace)
  next
    case (Some q)
    obtain img2 s2 where q: "q = (img2, s2)" by (cases q) auto
    with Some Cons.IH[of "Suc i" img2 s2] show ?thesis
      by (simp add: handle_instance_retrace)
  qed
qed

lemma annotate_frame_retrace:
  "annotate_frame tk w h r (retrace p s) =
     (case annotate_frame tk w h r s of (raised, img1, s1) \<Rightarrow> (raised, img1, retrace p s1))"
  by (simp add: annotate_frame_def Let_def instances_retrace split: option.split)

lemma iteration_retrace:
  "iteration tk (retrace p s) = (case iteration tk s of (fl, s1) \<Rightarrow> (fl, retrace p s1))"
proof -
  have "annotate_frame tk w h r (emit ModelTrack (emit CameraRead (retrace p s))) =
      (case annotate_frame tk w h r (emit ModelTrack (emit CameraRead s)) of
         (raised, img1, s1) \<Rightarrow> (raised, img1, retrace p s1))" for w h r
    by (simp add: emit_retrace annotate_frame_retrace)
  then show ?thesis
    by (simp add: iteration_def Let_def retrace_fields emit_retrace
        split: read_result.split track_result.split prod.split)
qed

lemma process_frame_retrace:
  "process_frame tks (retrace p s) =
     (case process_frame tks s of (stopped, s1) \<Rightarrow> (stopped, retrace p s1))"
proof (induction tks arbitrary: s)
  case Nil
  show ?case by simp
next
  case (Cons tk tks)
  obtain fl s1 where it: "iteration tk s = (fl, s1)" by (cases "iteration tk s") auto
  then have "iteration tk (retrace p s) = (fl, retrace p s1)"
    by (simp add: iteration_retrace)
  with it Cons.IH[of s1] show ?case by (cases fl) simp_all
qed

text \<open>
  A run from a state whose trace was extended by \<open>es\<close> is the run from the state
  itself, with \<open>es\<close> inserted into the trace at the point where the run starts.
\<close>

lemma process_frame_after_events:
  "process_frame tks (s\<lparr>trace := trace s @ es\<rparr>) =
     (fst (process_frame tks s),
      (snd (process_frame tks s))\<lparr>trace := trace s @ es @
         drop (length (trace s)) (trace (snd (process_frame tks s)))\<rparr>)"
proof -
  define s0 where "s0 = s\<lparr>trace := []\<rparr>"
  obtain b r0 where run: "process_frame tks s0 = (b, r0)"
    by (cases "process_frame tks s0") auto
  have s: "s = retrace (trace s) s0" and s': "s\<lparr>trace := trace s @ es\<rparr> = retrace (trace s @ es) s0"
    by (simp_all add: retrace_def s0_def)
  have "process_frame tks s = (b, retrace (trace s) r0)"
    by (subst s) (simp add: process_frame_retrace run)
  moreover have "process_frame tks (s\<lparr>trace := trace s @ es\<rparr>) = (b, retrace (trace s @ es) r0)"
    by (subst s') (simp add: process_frame_retrace run)
  ultimately show ?thesis by (simp add: retrace_def)
qed

lemma shows_flagged_trace:
  "shows_flagged tk (s\<lparr>trace := es\<rparr>) t = shows_flagged tk s t"
proof -
  have "named (s\<lparr>trace := es\<rparr>) = named s"
    "flagged_as (s\<lparr>trace := es\<rparr>) t = flagged_as s t"
    by (simp_all add: named_def flagged_as_def fun_eq_iff)
  then show ?thesis by (simp add: shows_flagged_def split: option.split)
qed

text \<open>
  C6. With the camera object in place, let the frame read fail in each of the passes
  \<open>fs\<close>, whatever their number. Then the loop makes all these passes and is still
  running; the state it is in differs from the one it started in by the trace only, which
  has one read and one warning per failed pass: the detector was not called, the sink was
  not called, and registry and files are as they were. The passes \<open>rest\<close> that follow
  run exactly as they would have run without the failed passes, the trace keeping the
  failed reads in their place. In particular, on the next pass whose read succeeds the
  detector is called, and a track id that the frame shows with a flagged class is in the
  registry after that pass.
\<close>

theorem failed_reads_are_skipped:
  assumes "camera s \<noteq> None" and "\<forall>tk \<in> set fs. read tk = ReadFails"
  shows "process_frame fs s = (False, s\<lparr>trace := trace s @ failed_reads (length fs)\<rparr>)
    \<and> detector_calls (snd (process_frame fs s)) = detector_calls s
    \<and> sink_ids (snd (process_frame fs s)) = sink_ids s
    \<and> saved_stone_ids (snd (process_frame fs s)) = saved_stone_ids s
    \<and> files (snd (process_frame fs s)) = files s
    \<and> process_frame (fs @ rest) s = process_frame rest (snd (process_frame fs s))
    \<and> fst (process_frame (fs @ rest) s) = fst (process_frame rest s)
    \<and> snd (process_frame (fs @ rest) s) =
        (snd (process_frame rest s))\<lparr>trace := trace s @ failed_reads (length fs) @
           drop (length (trace s)) (trace (snd (process_frame rest s)))\<rparr>
    \<and> (read tk = ReadOk h w \<longrightarrow>
         detector_calls (snd (iteration tk (snd (process_frame fs s)))) = detector_calls s + 1)
    \<and> (shows_flagged tk s t \<longrightarrow>
         t \<in> saved_stone_ids (snd (iteration tk (snd (process_frame fs s)))))"
proof -
  define s' where "s' = s\<lparr>trace := trace s @ failed_reads (length fs)\<rparr>"
  from process_frame_failed_reads[OF assms, of "[]"]
  have run: "process_frame fs s = (False, s')" by (simp add: s'_def)
  have cam: "camera s' \<noteq> None" using assms(1) by (simp add: s'_def)
  have d: "detector_calls s' = detector_calls s"
    using failed_reads_quiet[of "length fs"] by (simp add: s'_def detector_calls_def)
  have k: "sink_ids s' = sink_ids s"
    using failed_reads_quiet[of "length fs"]
    by (simp add: s'_def sink_ids_def snapshots_append)
  have f: "saved_stone_ids s' = saved_stone_ids s" "files s' = files s"
    by (simp_all add: s'_def)
  have r: "process_frame (fs @ rest) s = process_frame rest s'"
    using process_frame_failed_reads[OF assms, of rest] by (simp add: s'_def)
  note after = process_frame_after_events[of rest s "failed_reads (length fs)", folded s'_def]
  have ok: "detector_calls (snd (iteration tk s')) = detector_calls s + 1"
    if "read tk = ReadOk h w"
    using iteration_read_ok_detects[OF cam that] d by simp
  have fl: "t \<in> saved_stone_ids (snd (iteration tk s'))" if "shows_flagged tk s t"
  proof -
    from that have "shows_flagged tk s' t" by (simp add: s'_def shows_flagged_trace)
    then show ?thesis by (rule iteration_shows_flagged)
  qed
  from run d k f r after ok fl show ?thesis by (simp add: s'_def)
qed

theorem failed_reads_are_skipped_witness:
  "camera example_start \<noteq> None
   \<and> read unread_q = ReadFails
   \<and> read frame1 = ReadOk 1080 1980
   \<and> shows_flagged frame1 example_start 7
   \<and> process_frame [unread_q, unread_q, unread_q] example_start =
       (False, example_start\<lparr>trace := trace example_start @
          failed_reads (length [unread_q, unread_q, unread_q])\<rparr>)
   \<and> detector_calls (snd (process_frame [unread_q, unread_q, unread_q] example_start)) =
       detector_calls example_start
   \<and> detector_calls (snd (iteration frame1
        (snd (process_frame [unread_q, unread_q, unread_q] example_start)))) =
       detector_calls example_start + 1
   \<and> 7 \<in> saved_stone_ids (snd (iteration frame1
        (snd (process_frame [unread_q, unread_q, unread_q] example_start))))"
proof -
  have h1: "camera example_start \<noteq> None"
    and h2: "\<forall>tk \<in> set [unread_q, unread_q, unread_q]. read tk = ReadFails"
    and h3: "read frame1 = ReadOk 1080 1980"
    and h4: "read unread_q = ReadFails"
    by (simp_all add: eval_defs unread_q_def)
  have h5: "shows_flagged frame1 example_start 7"
    by (simp add: eval_defs shows_flagged_def frame_instances_def named_def flagged_as_def)
  from failed_reads_are_skipped[OF h1 h2, of "[frame1]" frame1 1080 1980 7] h1 h3 h4 h5
  show ?thesis by blast
qed

section \<open>The stop key\<close>

lemma iteration_outcome:
  "(fst (iteration tk s) = Break \<longleftrightarrow> pass_completes tk s \<and> key tk AND 255 = 113)
   \<and> key_polls (snd (iteration tk s)) = key_polls s + (if pass_completes tk s then 1 else 0)
   \<and> (pass_completes tk s \<longrightarrow> last (trace (snd (iteration tk s))) = WaitKey)
   \<and> (pass_raises tk s \<longrightarrow>
        last (trace (snd (iteration tk s))) = Log Error ''Erro ao processar o frame'')"
proof (cases "camera s = None")
  case True
  then show ?thesis
    by (simp add: iteration_def pass_completes_def pass_raises_def emit_def key_polls_def)
next
  case cam: False
  show ?thesis
  proof (cases "read tk")
    case ReadRaises
    with cam show ?thesis
      by (simp add: iteration_def pass_completes_def pass_raises_def emit_def key_polls_def)
  next
    case ReadFails
    with cam show ?thesis
      by (simp add: iteration_def pass_completes_def pass_raises_def emit_def key_polls_def)
  next
    case (ReadOk h w)
    show ?thesis
    proof (cases "track tk")
      case TrackRaises
      with cam ReadOk show ?thesis
        by (simp add: iteration_def pass_completes_def pass_raises_def emit_def key_polls_def)
    next
      case (TrackReturns r)
      obtain raised img s2
        where run: "annotate_frame tk w h r (emit ModelTrack (emit CameraRead s)) = (raised, img, s2)"
        by (cases "annotate_frame tk w h r (emit ModelTrack (emit CameraRead s))") auto
      from annotate_frame_counts(2)[OF run] have "key_polls s2 = key_polls s"
        by (simp add: key_polls_def emit_def)
      with cam ReadOk TrackReturns run show ?thesis
        by (auto simp: iteration_def pass_completes_def pass_raises_def Let_def emit_fields
            key_polls_def)
    qed
  qed
qed

text \<open>
  C7, as the code has it. The stop key is polled once in a pass that completes (the
  frame was read and nothing raised up to line 108), as the last call of the pass, and
  not at all in any other pass; the loop is left in a pass exactly when the pass completes
  and the key read is \<open>q\<close>.
\<close>

theorem stop_key_polled_when_pass_completes:
  "(fst (iteration tk s) = Break \<longleftrightarrow> pass_completes tk s \<and> key tk AND 255 = 113)
   \<and> key_polls (snd (iteration tk s)) = key_polls s + (if pass_completes tk s then 1 else 0)
   \<and> (pass_completes tk s \<longrightarrow> last (trace (snd (iteration tk s))) = WaitKey)"
  using iteration_outcome[of tk s] by blast

theorem stop_key_polled_when_pass_completes_witness:
  "pass_completes frame3_q example_start \<and> key frame3_q AND 255 = 113
   \<and> fst (iteration frame3_q example_start) = Break
   \<and> last (trace (snd (iteration frame3_q example_start))) = WaitKey
   \<and> \<not> pass_completes unread_q example_start
   \<and> key_polls (snd (iteration unread_q example_start)) = key_polls example_start"
proof -
  have h: "pass_completes frame3_q example_start" "key frame3_q AND 255 = 113"
    "\<not> pass_completes unread_q example_start"
    by (simp_all add: eval_defs pass_completes_def pass_raises_def frame3_q_def unread_q_def)
  from stop_key_polled_when_pass_completes[of frame3_q example_start]
    stop_key_polled_when_pass_completes[of unread_q example_start] h
  show ?thesis by simp
qed

text \<open>
  C7, as the claim states it, fails: with \<open>q\<close> pressed, a pass whose frame cannot be
  read and a pass in which showing the frame raises both go on to the next pass, and
  a run of such passes does not leave the loop.
\<close>

theorem stop_key_ignored_counterexample:
  "key unread_q AND 255 = 113 \<and> fst (iteration unread_q example_start) = Continue
   \<and> key unshown_q AND 255 = 113 \<and> fst (iteration unshown_q example_start) = Continue
   \<and> \<not> fst (process_frame [unread_q, unshown_q, unread_q, unshown_q] example_start)"
  by (simp add: eval_defs unread_q_def unshown_q_def)

section \<open>Exceptions in a pass\<close>

lemma iteration_raises_early:
  assumes "raises_early tk s"
  shows "saved_stone_ids (snd (iteration tk s)) = saved_stone_ids s
    \<and> files (snd (iteration tk s)) = files s
    \<and> new_snapshots s (snd (iteration tk s)) = []"
  using assms
  by (auto simp: raises_early_def iteration_def Let_def emit_def new_snapshots_def
      snapshots_append split: read_result.splits)

lemma save_stone_image_files:
  "files (save_stone_image env img s) f \<noteq> files s f \<longrightarrow>
     files (save_stone_image env img s) f = Some img"
  by (simp add: save_stone_image_def Let_def emit_def split: imwrite_result.split)

lemma handle_instance_drawn:
  assumes "handle_instance w h env d img s = Some (img1, s1)"
  shows "drawn img1 = drawn img @ annotation s w h d"
    and "colors s1 = colors s" and "names s1 = names s" and "named s d"
    and "files s1 f \<noteq> files s f \<longrightarrow> files s1 f = Some img1"
proof -
  obtain b c sc t where d: "d = (b, c, sc, t)" by (cases d) auto
  from assms obtain label where l: "names s c = Some label"
    by (auto simp: handle_instance_def d split: option.splits)
  define img' where "img' = img\<lparr>drawn := drawn img @ annotate s w h b label sc\<rparr>"
  from assms l have i: "img1 = img'"
    by (auto simp: handle_instance_def d Let_def img'_def split: if_splits)
  then show "drawn img1 = drawn img @ annotation s w h d"
    by (simp add: img'_def annotation_def d l)
  from l show "named s d" by (simp add: named_def d)
  show "colors s1 = colors s" and "names s1 = names s"
    and "files s1 f \<noteq> files s f \<longrightarrow> files s1 f = Some img1"
  proof -
    consider (save) "s1 = (save_stone_image env img' (emit (Snapshot t label) s))
          \<lparr>saved_stone_ids := insert t (saved_stone_ids
             (save_stone_image env img' (emit (Snapshot t label) s)))\<rparr>"
      | (skip) "s1 = s"
      using assms l by (auto simp: handle_instance_def d Let_def img'_def split: if_splits)
    then have "colors s1 = colors s \<and> names s1 = names s
        \<and> (files s1 f \<noteq> files s f \<longrightarrow> files s1 f = Some img1)"
    proof cases
      case save
      with save_stone_image_files[of env img' "emit (Snapshot t label) s" f] i
      show ?thesis by (simp add: save_stone_image_fields emit_fields)
    next
      case skip
      then show ?thesis by simp
    qed
    then show "colors s1 = colors s" and "names s1 = names s"
      and "files s1 f \<noteq> files s f \<longrightarrow> files s1 f = Some img1" by simp_all
  qed
qed

lemma annotation_cong:
  assumes "colors s1 = colors s" "names s1 = names s"
  shows "annotation s1 = annotation s" and "named s1 = named s"
proof -
  have "annotate s1 w h b label sc = annotate s w h b label sc" for w h b label sc
    by (simp add: annotate_def assms(1))
  then show "annotation s1 = annotation s"
    by (auto simp: annotation_def fun_eq_iff assms(2) split: option.splits)
  show "named s1 = named s"
    by (auto simp: named_def fun_eq_iff assms(2))
qed

lemma instances_prefix:
  assumes "instances w h se i ds img s = (raised, img1, s1)"
  shows "instances w h se i (takeWhile (named s) ds) img s = (False, img1, s1)
    \<and> (raised \<longleftrightarrow> \<not> list_all (named s) ds)"
  using assms
proof (induction ds arbitrary: i img s)
  case Nil
  then show ?case by simp
next
  case (Cons d ds)
  show ?case
  proof (cases "handle_instance w h (se i) d img s")
    case None
    then have "\<not> named s d"
      using handle_instance_named[of s d w h "se i" img] by auto
    with None Cons.prems show ?thesis by auto
  next
    case (Some q)
    obtain img2 s2 where q: "q = (img2, s2)" by (cases q) auto
    note one = handle_instance_drawn[OF Some[unfolded q]]
    note same = annotation_cong(2)[OF one(2,3)]
    from Some q Cons.prems have "instances w h se (Suc i) ds img2 s2 = (raised, img1, s1)"
      by simp
    from Cons.IH[OF this] same one(4) Some q show ?thesis by simp
  qed
qed

lemma extends_registered:
  assumes "extends s s'"
  shows "saved_stone_ids s' - saved_stone_ids s \<subseteq> set (new_sink_ids s s')"
proof -
  from assms obtain new where new: "snapshots (trace s') = snapshots (trace s) @ new"
    "saved_stone_ids s' \<subseteq> saved_stone_ids s \<union> fst ` set new"
    unfolding extends_def by blast
  from new(1) have "new_sink_ids s s' = map fst new"
    by (simp add: new_sink_ids_def sink_ids_def)
  with new(2) show ?thesis by auto
qed

text \<open>
  C4, as the code has it. An exception raised in a pass is caught and logged, and the
  loop goes on to the next pass. The registry never loses an entry. When the exception
  comes before the loop over the instances (no camera object, the read or the tracker
  raises), registry, files and sink calls are as before the pass. When it comes later (a
  class index without a name, or \<^verbatim>\<open>cv2.imshow\<close> raising), nothing is undone: the pass
  ends in the state in which the instances before the failing one, all of them when the
  failure is in \<^verbatim>\<open>cv2.imshow\<close>, have been handled completely, with the error logged;
  so every track id that one of these instances shows with a flagged class is in the
  registry, and if it was not there before the pass, the sink call made for it in this
  pass is in the trace.
\<close>

theorem exceptions_caught_without_rollback:
  assumes "pass_raises tk s"
  shows "fst (iteration tk s) = Continue
    \<and> process_frame (tk # tks) s = process_frame tks (snd (iteration tk s))
    \<and> last (trace (snd (iteration tk s))) = Log Error ''Erro ao processar o frame''
    \<and> saved_stone_ids s \<subseteq> saved_stone_ids (snd (iteration tk s))
    \<and> (raises_early tk s \<longrightarrow>
         saved_stone_ids (snd (iteration tk s)) = saved_stone_ids s
         \<and> files (snd (iteration tk s)) = files s
         \<and> new_snapshots s (snd (iteration tk s)) = [])
    \<and> (camera s \<noteq> None \<and> read tk = ReadOk h w \<and> track tk = TrackReturns r
          \<and> ids r = Some tids \<longrightarrow>
         (\<exists>img s2.
            instances w h (senv tk) 0
              (takeWhile (named s) (zip4 (xyxy r) (cls r) (conf r) tids))
              \<lparr>shape_h = h, shape_w = w, drawn = []\<rparr>
              (emit ModelTrack (emit CameraRead s)) = (False, img, s2)
            \<and> snd (iteration tk s) =
                emit (Log Error ''Erro ao processar o frame'')
                  (if list_all (named s) (zip4 (xyxy r) (cls r) (conf r) tids)
                   then emit Imshow s2 else s2))
         \<and> (list_ex (flagged_as s t)
               (takeWhile (named s) (zip4 (xyxy r) (cls r) (conf r) tids)) \<longrightarrow>
              t \<in> saved_stone_ids (snd (iteration tk s))
              \<and> (t \<notin> saved_stone_ids s \<longrightarrow>
                   t \<in> set (new_sink_ids s (snd (iteration tk s))))))"
proof -
  from assms have nc: "\<not> pass_completes tk s" by (simp add: pass_completes_def)
  with iteration_outcome[of tk s] have "fst (iteration tk s) \<noteq> Break" by blast
  then have c: "fst (iteration tk s) = Continue" by (cases "fst (iteration tk s)") auto
  then have p: "process_frame (tk # tks) s = process_frame tks (snd (iteration tk s))"
    by (cases "iteration tk s") auto
  from iteration_outcome[of tk s] assms
  have l: "last (trace (snd (iteration tk s))) = Log Error ''Erro ao processar o frame''"
    by blast
  note ext = iteration_extends[of s tk]
  then have m: "saved_stone_ids s \<subseteq> saved_stone_ids (snd (iteration tk s))"
    by (simp add: extends_def)
  have late: "(\<exists>img s2.
            instances w h (senv tk) 0
              (takeWhile (named s) (zip4 (xyxy r) (cls r) (conf r) tids))
              \<lparr>shape_h = h, shape_w = w, drawn = []\<rparr>
              (emit ModelTrack (emit CameraRead s)) = (False, img, s2)
            \<and> snd (iteration tk s) =
                emit (Log Error ''Erro ao processar o frame'')
                  (if list_all (named s) (zip4 (xyxy r) (cls r) (conf r) tids)
                   then emit Imshow s2 else s2))
         \<and> (list_ex (flagged_as s t)
               (takeWhile (named s) (zip4 (xyxy r) (cls r) (conf r) tids)) \<longrightarrow>
              t \<in> saved_stone_ids (snd (iteration tk s))
              \<and> (t \<notin> saved_stone_ids s \<longrightarrow>
                   t \<in> set (new_sink_ids s (snd (iteration tk s)))))"
    if cam: "camera s \<noteq> None" and rd: "read tk = ReadOk h w"
      and tr: "track tk = TrackReturns r" and id: "ids r = Some tids"
  proof -
    let ?ds = "zip4 (xyxy r) (cls r) (conf r) tids"
    define s1 where "s1 = emit ModelTrack (emit CameraRead s)"
    have same: "named s1 = named s" "flagged_as s1 t = flagged_as s t"
      by (auto simp: named_def flagged_as_def fun_eq_iff s1_def emit_def)
    obtain raised img s2 where run: "annotate_frame tk w h r s1 = (raised, img, s2)"
      by (cases "annotate_frame tk w h r s1") auto
    with id have ins: "instances w h (senv tk) 0 ?ds
        \<lparr>shape_h = h, shape_w = w, drawn = []\<rparr> s1 = (raised, img, s2)"
      by (simp add: annotate_frame_def)
    from instances_prefix[OF ins] same
    have kept: "instances w h (senv tk) 0 (takeWhile (named s) ?ds)
        \<lparr>shape_h = h, shape_w = w, drawn = []\<rparr> s1 = (False, img, s2)"
      and rs: "raised \<longleftrightarrow> \<not> list_all (named s) ?ds" by simp_all
    from assms cam rd tr run have "raised \<or> imshow_raises tk"
      by (auto simp: pass_raises_def s1_def)
    with cam rd tr run[unfolded s1_def] rs
    have fin: "snd (iteration tk s) = emit (Log Error ''Erro ao processar o frame'')
        (if list_all (named s) ?ds then emit Imshow s2 else s2)"
      by (auto simp: iteration_def Let_def)
    have "list_all (named s1) (takeWhile (named s) ?ds)"
      unfolding same list_all_iff by (auto dest: set_takeWhileD)
    from instances_named[OF this kept, of t] same
    have "\<forall>d \<in> set (takeWhile (named s) ?ds). flagged_as s t d \<longrightarrow> t \<in> saved_stone_ids s2"
      by simp
    moreover from fin have "saved_stone_ids (snd (iteration tk s)) = saved_stone_ids s2"
      by (simp add: emit_fields)
    ultimately have reg: "t \<in> saved_stone_ids (snd (iteration tk s))"
      if "list_ex (flagged_as s t) (takeWhile (named s) ?ds)"
      using that by (auto simp: list_ex_iff)
    from extends_registered[OF ext]
    have "t \<in> set (new_sink_ids s (snd (iteration tk s)))"
      if "t \<in> saved_stone_ids (snd (iteration tk s))" "t \<notin> saved_stone_ids s"
      using that by blast
    with reg kept[unfolded s1_def] fin show ?thesis by blast
  qed
  from c p l m iteration_raises_early[of tk s] late show ?thesis by blast
qed

theorem exceptions_caught_without_rollback_witness:
  "pass_raises frame1_untracked example_start \<and> raises_early frame1_untracked example_start
   \<and> fst (iteration frame1_untracked example_start) = Continue
   \<and> saved_stone_ids (snd (iteration frame1_untracked example_start)) =
       saved_stone_ids example_start
   \<and> pass_raises unshown_q example_start \<and> camera example_start \<noteq> None
   \<and> read unshown_q = ReadOk 1080 1980
   \<and> track unshown_q = TrackReturns (example_results [((100, 100, 200, 200), 1, 81 / 100, 7)])
   \<and> ids (example_results [((100, 100, 200, 200), 1, 81 / 100, 7)]) = Some [7]
   \<and> 7 \<notin> saved_stone_ids example_start
   \<and> last (trace (snd (iteration unshown_q example_start))) =
       Log Error ''Erro ao processar o frame''
   \<and> 7 \<in> saved_stone_ids (snd (iteration unshown_q example_start))
   \<and> 7 \<in> set (new_sink_ids example_start (snd (iteration unshown_q example_start)))"
proof -
  let ?r = "example_results [((100, 100, 200, 200), 1, 81 / 100, 7)]"
  have h: "pass_raises frame1_untracked example_start"
    "raises_early frame1_untracked example_start"
    "pass_raises unshown_q example_start"
    by (simp_all add: eval_defs pass_raises_def raises_early_def frame1_untracked_def
        unshown_q_def)
  have g: "camera example_start \<noteq> None" "read unshown_q = ReadOk 1080 1980"
    "track unshown_q = TrackReturns ?r" "ids ?r = Some [7]"
    "7 \<notin> saved_stone_ids example_start"
    by (simp_all add: eval_defs unshown_q_def)
  have k: "list_ex (flagged_as example_start 7)
      (takeWhile (named example_start) (zip4 (xyxy ?r) (cls ?r) (conf ?r) [7]))"
    by (simp add: eval_defs named_def flagged_as_def)
  from exceptions_caught_without_rollback[OF h(1)]
    exceptions_caught_without_rollback[OF h(3), where h = 1080 and w = 1980 and r = ?r
      and tids = "[7]" and t = 7] h g k
  show ?thesis by blast
qed

text \<open>
  C4, as the claim states it, fails: in the first frame of the scenario let
  \<^verbatim>\<open>cv2.imshow\<close> raise. The pass raises after the snapshot for track 7 was written
  and 7 was put in the registry; both stay.
\<close>

theorem exception_keeps_earlier_snapshot_counterexample:
  "pass_raises unshown_q example_start
   \<and> saved_stone_ids example_start = {}
   \<and> saved_stone_ids (snd (iteration unshown_q example_start)) = {7}
   \<and> new_sink_ids example_start (snd (iteration unshown_q example_start)) = [7]
   \<and> files example_start ''c:/potato-identifier/03-11-2026 09-05-07-045.jpg'' = None
   \<and> files (snd (iteration unshown_q example_start))
        ''c:/potato-identifier/03-11-2026 09-05-07-045.jpg'' \<noteq> None"
  by (simp add: eval_defs pass_raises_def unshown_q_def snapshot_filename_def
      path_join_def timestamp_def strftime_def zpad_def dec.simps digit_char_def)

section \<open>Start-up and cleanup\<close>

lemma cleanup_unopened:
  assumes "camera s \<noteq> Some True"
  shows "camera (snd (cleanup env s)) = camera s"
    and "\<exists>e. trace (snd (cleanup env s)) = trace s @ [DestroyAllWindows, Log (fst e) (snd e)]"
  using assms by (auto simp: cleanup_def Let_def emit_def)

text \<open>
  C5, as the code has it. When the camera cannot be opened (\<^verbatim>\<open>cv2.VideoCapture\<close>
  raises, or the object it returns is not opened), \<^verbatim>\<open>init_camera\<close> returns
  \<^verbatim>\<open>False\<close> and \<^verbatim>\<open>main\<close> ends without calling \<^verbatim>\<open>process_frame\<close>: no frame is
  read, \<^verbatim>\<open>cleanup\<close> is called once and the camera is not released. \<^verbatim>\<open>cleanup\<close>
  lets no exception escape, and on a camera that is absent or not opened it releases
  nothing and leaves the camera field as it is.
\<close>

theorem camera_not_opened_skips_processing:
  assumes "capture (init env) = CaptureRaises \<or> capture (init env) = CaptureReturns False"
  shows "\<not> fst (init_camera (init env) (VisionSystem ci nm d fs))
    \<and> (\<exists>s'. main env (VisionSystem ci nm d fs) = Some s'
          \<and> count_list (trace s') ProcessFrame = 0
          \<and> count_list (trace s') CameraRead = 0
          \<and> count_list (trace s') Cleanup = 1
          \<and> count_list (trace s') DestroyAllWindows = 1
          \<and> count_list (trace s') CameraRelease = 0)
    \<and> \<not> fst (cleanup cenv s)
    \<and> (camera s \<noteq> Some True \<longrightarrow>
          camera (snd (cleanup cenv s)) = camera s
          \<and> count_list (trace (snd (cleanup cenv s))) CameraRelease =
              count_list (trace s) CameraRelease)"
proof -
  have esc: "\<not> fst (cleanup cenv s)" by (simp add: cleanup_def Let_def)
  have noop: "camera (snd (cleanup cenv s)) = camera s
      \<and> count_list (trace (snd (cleanup cenv s))) CameraRelease =
          count_list (trace s) CameraRelease" if "camera s \<noteq> Some True"
    using cleanup_unopened[OF that, of cenv] by auto
  from assms have run: "\<not> fst (init_camera (init env) (VisionSystem ci nm d fs))
    \<and> (\<exists>s'. main env (VisionSystem ci nm d fs) = Some s'
          \<and> count_list (trace s') ProcessFrame = 0
          \<and> count_list (trace s') CameraRead = 0
          \<and> count_list (trace s') Cleanup = 1
          \<and> count_list (trace s') DestroyAllWindows = 1
          \<and> count_list (trace s') CameraRelease = 0)"
    by (auto simp: main_def init_camera_def cleanup_def VisionSystem_def emit_def Let_def)
  from run esc noop show ?thesis by blast
qed

theorem camera_not_opened_skips_processing_witness:
  "capture (init no_camera) = CaptureReturns False
   \<and> \<not> fst (init_camera (init no_camera) fresh)
   \<and> main no_camera fresh \<noteq> None
   \<and> count_list (trace (the (main no_camera fresh))) ProcessFrame = 0
   \<and> count_list (trace (the (main no_camera fresh))) Cleanup = 1
   \<and> count_list (trace (the (main no_camera fresh))) CameraRelease = 0"
proof -
  have h: "capture (init no_camera) = CaptureReturns False" by (simp add: no_camera_def)
  then have h': "capture (init no_camera) = CaptureRaises
      \<or> capture (init no_camera) = CaptureReturns False" by simp
  from camera_not_opened_skips_processing[OF h', of 1 example_names False Map.empty
      "clean no_camera" fresh]
  obtain s' where r: "\<not> fst (init_camera (init no_camera) fresh)"
    "main no_camera fresh = Some s'"
    "count_list (trace s') ProcessFrame = 0" "count_list (trace s') Cleanup = 1"
    "count_list (trace s') CameraRelease = 0"
    unfolding fresh_def by blast
  from r h show ?thesis by simp
qed

text \<open>
  C5, as the claim states it, fails: let the camera open and the creation of the window
  raise. \<^verbatim>\<open>init_camera\<close> logs the failure and returns \<^verbatim>\<open>False\<close>, but \<^verbatim>\<open>main\<close>
  tests the camera, which is open, and calls \<^verbatim>\<open>process_frame\<close>.
\<close>

theorem failed_init_still_processes_counterexample:
  "\<not> fst (init_camera (init window_fails) fresh)
   \<and> main window_fails fresh \<noteq> None
   \<and> count_list (trace (the (main window_fails fresh))) ProcessFrame = 1
   \<and> count_list (trace (the (main window_fails fresh))) CameraRead = 1"
  by (simp add: eval_defs main_def init_camera_def cleanup_def window_fails_def fresh_def
      frame3_q_def)

section \<open>File names of the snapshots\<close>

text \<open>
  C8 fails on the code. Two stones in one frame, the two calls of the sink reading the
  clock at 09:05:07.045100 and at 09:05:07.045900: the clock readings differ, the file
  names are the same, \<^verbatim>\<open>cv2.imwrite\<close> is called twice on that name and only one file
  exists afterwards. (The first call creates the missing directory.)
\<close>

theorem snapshot_filenames_collide:
  "example_clock 45100 \<noteq> example_clock 45900
   \<and> snapshot_filename ''c:/potato-identifier/'' (example_clock 45100) (example_clock 45100) =
       ''c:/potato-identifier/03-11-2026 09-05-07-045.jpg''
   \<and> snapshot_filename ''c:/potato-identifier/'' (example_clock 45900) (example_clock 45900) =
       ''c:/potato-identifier/03-11-2026 09-05-07-045.jpg''
   \<and> \<not> dir_exists example_start
   \<and> count_list (trace (snd (iteration frame_two_stones example_start)))
        (Makedirs ''c:/potato-identifier/'') = 1
   \<and> new_sink_ids example_start (snd (iteration frame_two_stones example_start)) = [7, 12]
   \<and> count_list (trace (snd (iteration frame_two_stones example_start)))
        (Imwrite ''c:/potato-identifier/03-11-2026 09-05-07-045.jpg'') = 2
   \<and> dom (files (snd (iteration frame_two_stones example_start))) =
        {''c:/potato-identifier/03-11-2026 09-05-07-045.jpg''}"
  by (simp add: eval_defs frame_two_stones_def snapshot_filename_def
      path_join_def timestamp_def strftime_def zpad_def dec.simps digit_char_def)

section \<open>Annotation\<close>










end
